theory Spec2Isabelle
  imports Main
begin

section \<open>Selman: the interactive selection manager\<close>

text \<open>
  A shallow embedding of \<^verbatim>\<open>selman/core.py\<close>, \<^verbatim>\<open>selman/printer.py\<close> and
  \<^verbatim>\<open>selman/ansi_control.py\<close>. The \<^verbatim>\<open>Selman\<close> object is a record, every method is
  a function from the object to a result and the updated object, and a raised Python
  exception is the \<open>Inl\<close> branch of the result (the object keeps the mutations made
  before the raise, as in Python). What is written to \<^verbatim>\<open>sys.stdout\<close> is appended to
  the field \<open>stdout\<close>, one element per call of \<^verbatim>\<open>sys.stdout.write\<close>,
  \<^verbatim>\<open>print\<close> or \<^verbatim>\<open>flush\<close>.
\<close>

subsection \<open>Python values and exceptions\<close>

datatype py_error = IndexError | KeyError | StopIteration

text \<open>\<^verbatim>\<open>xs[i]\<close> on a Python list: a negative index counts from the end, an index
  outside the list raises.\<close>

definition py_index :: "'a list \<Rightarrow> int \<Rightarrow> py_error + 'a" where
  "py_index xs i =
     (if 0 \<le> i \<and> i < int (length xs) then Inr (xs ! nat i)
      else if i < 0 \<and> - int (length xs) \<le> i then Inr (xs ! nat (int (length xs) + i))
      else Inl IndexError)"

text \<open>\<^verbatim>\<open>d[k]\<close> on a Python dict: a missing key raises.\<close>

definition dict_get :: "('k \<rightharpoonup> 'v) \<Rightarrow> 'k \<Rightarrow> py_error + 'v" where
  "dict_get d k = (case d k of None \<Rightarrow> Inl KeyError | Some v \<Rightarrow> Inr v)"

subsection \<open>Terminal output\<close>

text \<open>One element per write to the terminal. The escape sequences that carry a number
  keep it as an integer: \<open>CUU n\<close> is \<^verbatim>\<open>ESC [ n A\<close>, \<open>CUD n\<close> is \<^verbatim>\<open>ESC [ n B\<close>,
  \<open>CHA n\<close> is \<^verbatim>\<open>ESC [ n G\<close>, \<open>EL2\<close> is \<^verbatim>\<open>ESC [ 2 K\<close>, \<open>DECTCEM b\<close> is
  \<^verbatim>\<open>ESC [ ? 25 h\<close> or \<^verbatim>\<open>l\<close>, \<open>DECAWM b\<close> is \<^verbatim>\<open>ESC [ ? 7 h\<close> or \<^verbatim>\<open>l\<close>.\<close>

datatype term_out =
    CUU int
  | CUD int
  | CHA int
  | EL2
  | DECTCEM bool
  | DECAWM bool
  | Chunk string
  | Newline
  | Flush

definition ESC :: string where
  "ESC = [CHR 0x1B]"

subsubsection \<open>ansi\_control.py\<close>

definition ANSI_KEY_UP :: string where
  "ANSI_KEY_UP = ESC @ ''[A''"

definition ANSI_KEY_DOWN :: string where
  "ANSI_KEY_DOWN = ESC @ ''[B''"

definition ANSI_KEY_EOX :: string where
  "ANSI_KEY_EOX = [CHR 0x03]"

definition cursor_up :: "int \<Rightarrow> term_out list" where
  "cursor_up dist = (if dist = 0 then [] else [CUU dist])"

definition cursor_down :: "int \<Rightarrow> term_out list" where
  "cursor_down dist = (if dist = 0 then [] else [CUD dist])"

text \<open>The function moves the cursor and returns a closure that moves it back; the model
  returns what is written now and what the closure writes when it is called.\<close>

definition move_cursor_by_relative_pos_row :: "int \<Rightarrow> term_out list \<times> term_out list" where
  "move_cursor_by_relative_pos_row relative_pos_row =
     (if relative_pos_row = 0 then ([], [])
      else let dist = \<bar>relative_pos_row\<bar> in
        if relative_pos_row > 0 then (cursor_down dist, cursor_up dist)
        else (cursor_up dist, cursor_down dist))"

definition set_cursor_visibility :: "bool \<Rightarrow> term_out list" where
  "set_cursor_visibility is_visible = [DECTCEM is_visible]"

definition enable_autowrap :: "bool \<Rightarrow> term_out list" where
  "enable_autowrap enabled = [DECAWM enabled]"

definition set_col_offset :: "int \<Rightarrow> term_out list" where
  "set_col_offset offset = [CHA (if offset < 0 then 0 else offset)]"

definition erase_line :: "int \<Rightarrow> term_out list" where
  "erase_line col_offset = EL2 # set_col_offset col_offset"

definition is_ansi_key :: "string \<Rightarrow> bool" where
  "is_ansi_key target = (target = ESC)"

subsubsection \<open>printer.py\<close>

datatype TextEffect =
    UNFOCUSED
  | FOCUSED
  | SELECTED
  | SELECTED_FOCUSED
  | BANNED
  | BANNED_FOCUSED

definition FG_muted :: string where
  "FG_muted = ''38;5;245''"

definition FG_accent :: string where
  "FG_accent = ''38;5;117''"

definition FG_selected :: string where
  "FG_selected = ''38;5;112''"

text \<open>The two bullets, as the UTF-8 bytes of U+25CB and U+25CF.\<close>

definition hollow_bullet :: string where
  "hollow_bullet = [CHR 0xE2, CHR 0x97, CHR 0x8B]"

definition filled_bullet :: string where
  "filled_bullet = [CHR 0xE2, CHR 0x97, CHR 0x8F]"

definition write_line :: "string \<Rightarrow> string option \<Rightarrow> bool \<Rightarrow> term_out list" where
  "write_line text color_code restore_style =
     (case color_code of
        None \<Rightarrow> [Chunk text]
      | Some c \<Rightarrow>
          if restore_style then [Chunk (ESC @ ''['' @ c @ ''m'' @ text @ ESC @ ''[0m'')]
          else [Chunk (ESC @ ''['' @ c @ ''m'' @ text)])"

definition render_at_row :: "int option \<Rightarrow> int \<Rightarrow> term_out list \<Rightarrow> term_out list" where
  "render_at_row relative_pos col_offset draw =
     (case relative_pos of
        Some r \<Rightarrow>
          (case move_cursor_by_relative_pos_row r of
             (moved, restore_pos) \<Rightarrow> moved @ draw @ restore_pos @ set_col_offset col_offset)
      | None \<Rightarrow> draw @ set_col_offset col_offset)"

definition print_unfocused :: "string \<Rightarrow> int \<Rightarrow> int option \<Rightarrow> term_out list" where
  "print_unfocused text col_offset relative_pos =
     render_at_row relative_pos col_offset
       (write_line (hollow_bullet @ '' '' @ text) (Some FG_muted) True)"

definition print_focused :: "string \<Rightarrow> int \<Rightarrow> int option \<Rightarrow> term_out list" where
  "print_focused text col_offset relative_pos =
     render_at_row relative_pos col_offset
       (write_line (filled_bullet @ '' '' @ text) (Some FG_accent) True)"

definition print_selected :: "string \<Rightarrow> int \<Rightarrow> int option \<Rightarrow> term_out list" where
  "print_selected text col_offset relative_pos =
     render_at_row relative_pos col_offset
       (write_line (filled_bullet @ '' '' @ text) (Some FG_selected) True)"

definition print_selected_focused :: "string \<Rightarrow> int \<Rightarrow> int option \<Rightarrow> term_out list" where
  "print_selected_focused text col_offset relative_pos =
     render_at_row relative_pos col_offset
       (write_line (filled_bullet @ '' '') (Some FG_accent) True
        @ write_line text (Some FG_selected) True)"

definition print_banned_focused :: "string \<Rightarrow> int \<Rightarrow> int option \<Rightarrow> term_out list" where
  "print_banned_focused text col_offset relative_pos =
     render_at_row relative_pos col_offset
       (write_line (ESC @ ''[9m'' @ filled_bullet @ '' '') (Some FG_accent) False
        @ write_line (text @ ESC @ ''[0m'') (Some FG_accent) False)"

definition print_banned :: "string \<Rightarrow> int \<Rightarrow> int option \<Rightarrow> term_out list" where
  "print_banned text col_offset relative_pos =
     render_at_row relative_pos col_offset
       (write_line (ESC @ ''[9m'' @ hollow_bullet @ '' '' @ text @ ESC @ ''[29m'')
          (Some FG_muted) True)"

definition print_text_effect ::
  "string \<Rightarrow> TextEffect \<Rightarrow> int \<Rightarrow> int option \<Rightarrow> term_out list" where
  "print_text_effect text effect col_offset relative_pos =
     (case effect of
        UNFOCUSED \<Rightarrow> print_unfocused text col_offset relative_pos
      | FOCUSED \<Rightarrow> print_focused text col_offset relative_pos
      | SELECTED \<Rightarrow> print_selected text col_offset relative_pos
      | SELECTED_FOCUSED \<Rightarrow> print_selected_focused text col_offset relative_pos
      | BANNED \<Rightarrow> print_banned text col_offset relative_pos
      | BANNED_FOCUSED \<Rightarrow> print_banned_focused text col_offset relative_pos)"

subsection \<open>The Selman object\<close>

text \<open>The attributes of the class. \<open>mutex_group\<close> is a Python set of frozensets of item
  indices: the outer list is the set in its iteration order, each inner list one frozenset
  in its iteration order. \<open>sel_board\<close> and \<open>banned_board\<close> are the two dicts keyed by
  label, \<open>terminate_flag\<close> is \<^verbatim>\<open>_terminate\<close>. The dict \<^verbatim>\<open>key_events\<close> is fixed at
  construction and is the function \<open>key_events\<close> below.\<close>

record selman =
  selection :: "string list"
  col_offset :: int
  mutex_group :: "int list list option"
  allow_multiple_selection :: bool
  footer_comments :: "string list option"
  wipe_comments_after_select :: bool
  current_index :: int
  sel_board :: "string \<rightharpoonup> bool"
  banned_board :: "string \<rightharpoonup> bool"
  terminate_flag :: bool
  stdout :: "term_out list"

text \<open>A method: it reads and updates the object, and returns a value or raises.\<close>

type_synonym 'a act = "selman \<Rightarrow> (py_error + 'a) \<times> selman"

definition ret :: "'a \<Rightarrow> 'a act" where
  "ret v = (\<lambda>s. (Inr v, s))"

definition bnd :: "'a act \<Rightarrow> ('a \<Rightarrow> 'b act) \<Rightarrow> 'b act" where
  "bnd m f = (\<lambda>s. case m s of (Inl e, s') \<Rightarrow> (Inl e, s') | (Inr v, s') \<Rightarrow> f v s')"

definition thn :: "'a act \<Rightarrow> 'b act \<Rightarrow> 'b act" where
  "thn m k = bnd m (\<lambda>_. k)"

text \<open>\<^verbatim>\<open>try: m finally: fin\<close>: \<open>fin\<close> runs whether \<open>m\<close> raised or not; an exception of
  \<open>fin\<close> replaces the outcome of \<open>m\<close>.\<close>

definition try_finally :: "'a act \<Rightarrow> unit act \<Rightarrow> 'a act" where
  "try_finally m fin =
     (\<lambda>s. case m s of (r, s') \<Rightarrow>
        (case fin s' of (Inl e, s'') \<Rightarrow> (Inl e, s'') | (Inr _, s'') \<Rightarrow> (r, s'')))"

definition emit :: "term_out list \<Rightarrow> unit act" where
  "emit out = (\<lambda>s. (Inr (), s\<lparr>stdout := stdout s @ out\<rparr>))"

definition Selman_init ::
  "string list \<Rightarrow> int \<Rightarrow> bool \<Rightarrow> int list list option \<Rightarrow> string list option \<Rightarrow> bool \<Rightarrow> selman"
where
  "Selman_init selection' col_offset' allow_multiple_selection' mutex_group'
       footer_comments' wipe_comments_after_select' =
     \<lparr> selection = selection',
       col_offset = col_offset',
       mutex_group = mutex_group',
       allow_multiple_selection = allow_multiple_selection',
       footer_comments = footer_comments',
       wipe_comments_after_select = wipe_comments_after_select',
       current_index = 0,
       sel_board = map_of (map (\<lambda>item. (item, False)) selection'),
       banned_board = map_of (map (\<lambda>item. (item, False)) selection'),
       terminate_flag = False,
       stdout = [] \<rparr>"

definition terminate :: "unit act" where
  "terminate = (\<lambda>s. (Inr (), s\<lparr>terminate_flag := True\<rparr>))"

text \<open>\<^verbatim>\<open>self.selection[index]\<close>.\<close>

definition item_at :: "int \<Rightarrow> string act" where
  "item_at index = (\<lambda>s. (py_index (selection s) index, s))"

definition print_comments :: "unit act" where
  "print_comments =
     (\<lambda>s. case footer_comments s of
        None \<Rightarrow> (Inr (), s)
      | Some cs \<Rightarrow>
          emit (concat (map (\<lambda>c. set_col_offset (col_offset s) @ write_line c None True @ [Newline]) cs)) s)"

definition wipe_comments :: "unit act" where
  "wipe_comments =
     (\<lambda>s. case footer_comments s of
        None \<Rightarrow> (Inr (), s)
      | Some _ \<Rightarrow>
          (let dist = int (length (selection s)) - current_index s in
           thn (try_finally
                  (emit (cursor_down dist @ erase_line (col_offset s) @ [Flush]))
                  (emit (cursor_up dist @ [Flush])))
               (emit [Flush]) s))"

definition get_relative_pos_by_index :: "selman \<Rightarrow> int \<Rightarrow> int" where
  "get_relative_pos_by_index s index = index - current_index s"

definition is_index_valid :: "selman \<Rightarrow> int \<Rightarrow> bool" where
  "is_index_valid s target_index = (0 \<le> target_index \<and> target_index < int (length (selection s)))"

definition is_index_selected :: "int \<Rightarrow> bool act" where
  "is_index_selected target_index =
     bnd (item_at target_index) (\<lambda>label s. (dict_get (sel_board s) label, s))"

definition is_index_banned :: "int \<Rightarrow> bool act" where
  "is_index_banned target_index =
     bnd (item_at target_index) (\<lambda>label s. (dict_get (banned_board s) label, s))"

definition render_text_effect :: "TextEffect \<Rightarrow> int option \<Rightarrow> unit act" where
  "render_text_effect effect target_index =
     thn (\<lambda>s. emit (set_col_offset (col_offset s)) s)
       (\<lambda>s. case (case target_index of None \<Rightarrow> None
                   | Some t \<Rightarrow> if is_index_valid s t then Some t else None) of
          Some t \<Rightarrow>
            (case move_cursor_by_relative_pos_row (get_relative_pos_by_index s t) of
               (moved, restore) \<Rightarrow>
                 thn (emit moved)
                   (try_finally
                      (bnd (item_at t)
                         (\<lambda>text s. emit (print_text_effect text effect (col_offset s) None) s))
                      (emit restore)) s)
        | None \<Rightarrow>
            bnd (item_at (current_index s))
              (\<lambda>text s. emit (print_text_effect text effect (col_offset s) None) s) s)"

definition initialize_focus :: "unit act" where
  "initialize_focus =
     (\<lambda>s. let selection_count = int (length (selection s));
              result_offset = (case footer_comments s of
                                 None \<Rightarrow> selection_count
                               | Some cs \<Rightarrow> selection_count + int (length cs))
          in thn (emit (set_col_offset (col_offset s) @ cursor_up result_offset))
               (render_text_effect FOCUSED None) s)"

definition set_to_focused :: "int \<Rightarrow> unit act" where
  "set_to_focused target_index =
     bnd (is_index_selected target_index) (\<lambda>sel.
       if sel then render_text_effect SELECTED_FOCUSED (Some target_index)
       else bnd (is_index_banned target_index) (\<lambda>ban.
         if ban then render_text_effect BANNED_FOCUSED (Some target_index)
         else render_text_effect FOCUSED None))"

definition set_to_unfocused :: "int \<Rightarrow> unit act" where
  "set_to_unfocused target_index =
     bnd (is_index_selected target_index) (\<lambda>sel.
       if sel then render_text_effect SELECTED (Some target_index)
       else bnd (is_index_banned target_index) (\<lambda>ban.
         if ban then render_text_effect BANNED (Some target_index)
         else render_text_effect UNFOCUSED (Some target_index)))"

definition change_focus :: "int \<Rightarrow> unit act" where
  "change_focus relative_move =
     (\<lambda>s. let target = current_index s + relative_move in
        if \<not> (0 \<le> target \<and> target < int (length (selection s))) then (Inr (), s)
        else
          thn (set_to_unfocused (current_index s))
            (thn (\<lambda>s1. (Inr (), s1\<lparr>current_index := target\<rparr>))
               (thn (emit (fst (move_cursor_by_relative_pos_row relative_move)))
                  (\<lambda>s2. set_to_focused (current_index s2) s2))) s)"

definition proceed :: "unit act" where
  "proceed =
     thn (bnd (\<lambda>s. is_index_selected (current_index s) s) (\<lambda>sel.
            if sel then render_text_effect SELECTED None
            else render_text_effect UNFOCUSED None))
       terminate"

text \<open>The loop over the mutex group: the first set that holds the index decides, and
  \<^verbatim>\<open>next(iter(s - {target_index}))\<close> raises \<^verbatim>\<open>StopIteration\<close> when the difference is
  empty. The difference is iterated in the order of \<open>s\<close>.\<close>

fun first_opposite :: "int \<Rightarrow> int list list \<Rightarrow> py_error + int option" where
  "first_opposite target_index [] = Inr None"
| "first_opposite target_index (s # rest) =
     (if target_index \<in> set s then
        (case filter (\<lambda>x. x \<noteq> target_index) s of
           [] \<Rightarrow> Inl StopIteration
         | j # _ \<Rightarrow> Inr (Some j))
      else first_opposite target_index rest)"

definition get_opposite_mutex_index :: "int \<Rightarrow> int option act" where
  "get_opposite_mutex_index target_index =
     (\<lambda>s. case mutex_group s of
        None \<Rightarrow> (Inr None, s)
      | Some g \<Rightarrow> (first_opposite target_index g, s))"

definition ban_selection_by_index :: "int \<Rightarrow> bool \<Rightarrow> unit act" where
  "ban_selection_by_index target_index do_render =
     thn (if do_render then render_text_effect BANNED (Some target_index) else ret ())
       (thn (bnd (item_at target_index)
               (\<lambda>label s. (Inr (), s\<lparr>sel_board := (sel_board s)(label \<mapsto> False)\<rparr>)))
          (bnd (item_at target_index)
             (\<lambda>label s. (Inr (), s\<lparr>banned_board := (banned_board s)(label \<mapsto> True)\<rparr>))))"

definition unban_selection_by_index :: "int \<Rightarrow> bool \<Rightarrow> unit act" where
  "unban_selection_by_index target_index do_render =
     thn (if do_render then render_text_effect UNFOCUSED (Some target_index) else ret ())
       (bnd (item_at target_index)
          (\<lambda>label s. (Inr (), s\<lparr>banned_board := (banned_board s)(label \<mapsto> False)\<rparr>)))"

definition select_option :: "string option act" where
  "select_option =
     (\<lambda>s. if \<not> allow_multiple_selection s then
        thn (bnd (item_at (current_index s))
               (\<lambda>label s1. (Inr (), s1\<lparr>sel_board := (sel_board s1)(label \<mapsto> True)\<rparr>)))
          (thn (render_text_effect SELECTED None)
             (thn terminate
                (bnd (\<lambda>s1. item_at (current_index s1) s1) (\<lambda>label. ret (Some label))))) s
      else
        bnd (is_index_selected (current_index s)) (\<lambda>current.
          if current then
            thn (bnd (\<lambda>s1. item_at (current_index s1) s1)
                   (\<lambda>label s1. (Inr (), s1\<lparr>sel_board := (sel_board s1)(label \<mapsto> False)\<rparr>)))
              (thn (render_text_effect FOCUSED None)
                 (bnd (\<lambda>s1. get_opposite_mutex_index (current_index s1) s1) (\<lambda>opposite_index.
                    case opposite_index of
                      None \<Rightarrow> ret None
                    | Some opp \<Rightarrow>
                        bnd (is_index_banned opp) (\<lambda>ban.
                          if ban then thn (unban_selection_by_index opp True) (ret None)
                          else ret None))))
          else
            thn (bnd (\<lambda>s1. item_at (current_index s1) s1)
                   (\<lambda>label s1. (Inr (), s1\<lparr>sel_board := (sel_board s1)(label \<mapsto> True)\<rparr>)))
              (thn (\<lambda>s1. unban_selection_by_index (current_index s1) False s1)
                 (thn (render_text_effect SELECTED_FOCUSED None)
                    (bnd (\<lambda>s1. get_opposite_mutex_index (current_index s1) s1) (\<lambda>opposite_index.
                       case opposite_index of
                         None \<Rightarrow> ret None
                       | Some opp \<Rightarrow> thn (ban_selection_by_index opp True) (ret None)))))) s)"

subsection \<open>Keys and the session\<close>

text \<open>The dict \<^verbatim>\<open>key_events\<close>: the action bound to a key, if any. Every action but
  \<open>select_option\<close> returns \<^verbatim>\<open>None\<close>.\<close>

definition key_events :: "string \<Rightarrow> string option act option" where
  "key_events k =
     (if k = ''j'' then Some (thn (change_focus 1) (ret None))
      else if k = ANSI_KEY_DOWN then Some (thn (change_focus 1) (ret None))
      else if k = ''k'' then Some (thn (change_focus (- 1)) (ret None))
      else if k = ANSI_KEY_UP then Some (thn (change_focus (- 1)) (ret None))
      else if k = [CHR 0x0D] then Some select_option
      else if k = [CHR 0x0A] then Some select_option
      else if k = ''n'' then Some (thn proceed (ret None))
      else if k = ''q'' then Some (thn terminate (ret None))
      else if k = ANSI_KEY_EOX then Some (thn terminate (ret None))
      else None)"

text \<open>\<open>k\<close> is the byte just read, \<open>stdin\<close> what is still to be read; after the escape
  byte two more bytes are read (fewer at the end of the input).\<close>

definition manage_key_input ::
  "string \<Rightarrow> string \<Rightarrow> selman \<Rightarrow> ((py_error + string option) \<times> selman) \<times> string" where
  "manage_key_input k stdin s =
     (let k' = (if is_ansi_key k then k @ take 2 stdin else k);
          stdin' = (if is_ansi_key k then drop 2 stdin else stdin)
      in (case key_events k' of
            Some action \<Rightarrow> action s
          | None \<Rightarrow> (Inr None, s), stdin'))"

text \<open>The \<^verbatim>\<open>while True\<close> loop of \<open>selman_mainstream\<close>. At the end of the input
  \<^verbatim>\<open>read(1)\<close> returns the empty bytes, no action fires, and the loop goes on for ever
  unless the flag is set: not returning is \<open>None\<close>.\<close>

partial_function (option) read_loop ::
  "selman \<Rightarrow> string \<Rightarrow> ((py_error + string option) \<times> selman \<times> string) option" where
  "read_loop s stdin =
     (case manage_key_input (take 1 stdin) (drop 1 stdin) s of
        ((Inl e, s'), rest) \<Rightarrow> Some (Inl e, s', rest)
      | ((Inr last_selection, s'), rest) \<Rightarrow>
          (if terminate_flag (s'\<lparr>stdout := stdout s' @ [Flush]\<rparr>)
           then Some (Inr last_selection, s'\<lparr>stdout := stdout s' @ [Flush]\<rparr>, rest)
           else read_loop (s'\<lparr>stdout := stdout s' @ [Flush]\<rparr>) rest))"

declare read_loop.simps [code]

text \<open>The calls on the terminal mode: \<^verbatim>\<open>tty.setraw\<close>, \<^verbatim>\<open>tty.setcbreak\<close> and
  \<^verbatim>\<open>termios.tcsetattr(fd, TCSADRAIN, mode)\<close>.\<close>

datatype 'm termios_call = Setraw | Setcbreak | Tcsetattr 'm

text \<open>The \<^verbatim>\<open>finally\<close> block of \<open>selman_mainstream\<close> and the return after it: \<open>r\<close> is how
  the \<^verbatim>\<open>try\<close> block ended, \<open>old\<close> the mode that \<^verbatim>\<open>termios.tcgetattr\<close> returned.\<close>

definition mainstream_finally ::
  "'m \<Rightarrow> (py_error + string option) \<Rightarrow> selman \<Rightarrow>
     (py_error + string option) \<times> selman \<times> 'm termios_call list" where
  "mainstream_finally old r s =
     (case (if wipe_comments_after_select s then wipe_comments else ret ()) s of
        (Inl e, s1) \<Rightarrow> (Inl e, s1, [Setraw, Setcbreak])
      | (Inr _, s1) \<Rightarrow>
          (let initial_cursor_relative_pos = int (length (selection s1)) - current_index s1;
               s2 = s1\<lparr>stdout := stdout s1 @ cursor_down initial_cursor_relative_pos\<rparr>;
               s3 = s2\<lparr>stdout := stdout s2 @ set_cursor_visibility True @ enable_autowrap True
                                   @ [Newline]\<rparr>
           in (case r of
                 Inl e \<Rightarrow> Inl e
               | Inr last_selection \<Rightarrow>
                   if allow_multiple_selection s3 then Inr last_selection else Inr None,
               s3, [Setraw, Setcbreak, Tcsetattr old])))"

definition selman_mainstream ::
  "'m \<Rightarrow> selman \<Rightarrow> string \<Rightarrow>
     ((py_error + string option) \<times> selman \<times> string \<times> 'm termios_call list) option" where
  "selman_mainstream old s stdin =
     (case thn (emit (set_cursor_visibility False @ enable_autowrap False))
             (thn (\<lambda>s1. (if allow_multiple_selection s1
                          then emit (set_col_offset (col_offset s1)) else ret ()) s1)
                (thn print_comments (thn initialize_focus (emit [Flush])))) s of
        (Inl e, s1) \<Rightarrow>
          (case mainstream_finally old (Inl e) s1 of
             (r, s2, calls) \<Rightarrow> Some (r, s2, stdin, calls))
      | (Inr _, s1) \<Rightarrow>
          (case read_loop s1 stdin of
             None \<Rightarrow> None
           | Some (r, s2, rest) \<Rightarrow>
               (case mainstream_finally old r s2 of
                  (r', s3, calls) \<Rightarrow> Some (r', s3, rest, calls))))"

definition run ::
  "'m \<Rightarrow> selman \<Rightarrow> string \<Rightarrow>
     ((py_error + string option) \<times> selman \<times> string \<times> 'm termios_call list) option" where
  "run old s stdin =
     selman_mainstream old
       (s\<lparr>stdout := stdout s @
             concat (map (\<lambda>item. set_col_offset (col_offset s)
                                  @ print_unfocused item (col_offset s) None @ [Newline])
                       (selection s))\<rparr>)
       stdin"

section \<open>Notions used in the statements\<close>

text \<open>The outcome of a rendering call and what the terminal has received after it.\<close>

definition render_res :: "TextEffect \<Rightarrow> int option \<Rightarrow> selman \<Rightarrow> py_error + unit" where
  "render_res e t s = fst (render_text_effect e t s)"

definition render_out :: "TextEffect \<Rightarrow> int option \<Rightarrow> selman \<Rightarrow> term_out list" where
  "render_out e t s = stdout (snd (render_text_effect e t s))"

text \<open>The operations of a session, and the object after one of them or after a sequence
  of them. The object after a call that raised is the object as the raise left it.\<close>

datatype operation =
    Change_focus int
  | Select_option
  | Proceed
  | Terminate
  | Ban int bool
  | Unban int bool

fun apply_operation :: "operation \<Rightarrow> selman \<Rightarrow> selman" where
  "apply_operation (Change_focus d) s = snd (change_focus d s)"
| "apply_operation Select_option s = snd (select_option s)"
| "apply_operation Proceed s = snd (proceed s)"
| "apply_operation Terminate s = snd (terminate s)"
| "apply_operation (Ban i r) s = snd (ban_selection_by_index i r s)"
| "apply_operation (Unban i r) s = snd (unban_selection_by_index i r s)"

definition apply_operations :: "operation list \<Rightarrow> selman \<Rightarrow> selman" where
  "apply_operations ops s = fold apply_operation ops s"

fun is_ban :: "operation \<Rightarrow> bool" where
  "is_ban (Ban i r) = True"
| "is_ban _ = False"

text \<open>No label is both selected and banned.\<close>

definition flags_exclusive :: "selman \<Rightarrow> bool" where
  "flags_exclusive s = (\<forall>l. \<not> (sel_board s l = Some True \<and> banned_board s l = Some True))"

text \<open>What holds of the flags during a session: they are exclusive, and in
  single-selection mode nothing is banned.\<close>

definition session_flags :: "selman \<Rightarrow> bool" where
  "session_flags s =
     (flags_exclusive s \<and>
      (\<not> allow_multiple_selection s \<longrightarrow> (\<forall>l. banned_board s l \<noteq> Some True)))"

text \<open>The attributes that no method assigns.\<close>

definition same_config :: "selman \<Rightarrow> selman \<Rightarrow> bool" where
  "same_config s s' =
     (selection s' = selection s \<and> col_offset s' = col_offset s
      \<and> mutex_group s' = mutex_group s
      \<and> allow_multiple_selection s' = allow_multiple_selection s
      \<and> footer_comments s' = footer_comments s
      \<and> wipe_comments_after_select s' = wipe_comments_after_select s)"

text \<open>The focus is an index of the item list and both boards have an entry for every
  label of the list.\<close>

definition state_ok :: "selman \<Rightarrow> bool" where
  "state_ok s =
     (0 \<le> current_index s \<and> current_index s < int (length (selection s))
      \<and> set (selection s) \<subseteq> dom (sel_board s)
      \<and> set (selection s) \<subseteq> dom (banned_board s))"

text \<open>The mutex group as the data model has it, for a list of \<open>n\<close> items: every set has
  exactly two members, both indices of the list, and no index is in two different sets.\<close>

definition mutex_ok :: "nat \<Rightarrow> int list list \<Rightarrow> bool" where
  "mutex_ok n g =
     ((\<forall>m \<in> set g. card (set m) = 2 \<and> (\<forall>i \<in> set m. 0 \<le> i \<and> i < int n))
      \<and> (\<forall>m \<in> set g. \<forall>m' \<in> set g. set m \<inter> set m' \<noteq> {} \<longrightarrow> set m = set m'))"

text \<open>What \<open>get_opposite_mutex_index\<close> returns or raises; it reads the mutex group
  only.\<close>

definition partner :: "selman \<Rightarrow> int \<Rightarrow> py_error + int option" where
  "partner s i = fst (get_opposite_mutex_index i s)"

text \<open>A multi-selection session over the mutex group \<open>g\<close> with pairwise distinct
  labels, in a state where the focus is an index of the list.\<close>

definition mutex_session :: "int list list \<Rightarrow> selman \<Rightarrow> bool" where
  "mutex_session g s =
     (allow_multiple_selection s \<and> distinct (selection s) \<and> mutex_group s = Some g
      \<and> mutex_ok (length (selection s)) g \<and> state_ok s)"

text \<open>\<open>n\<close> consecutive calls of \<open>select_option\<close>.\<close>

definition activate_times :: "nat \<Rightarrow> selman \<Rightarrow> selman" where
  "activate_times n s = ((\<lambda>s. snd (select_option s)) ^^ n) s"

section \<open>Properties\<close>

subsection \<open>Running the methods\<close>

lemma ret_apply [simp]: "ret v s = (Inr v, s)"
  by (simp add: ret_def)

lemma emit_apply [simp]: "emit out s = (Inr (), s\<lparr>stdout := stdout s @ out\<rparr>)"
  by (simp add: emit_def)

lemma terminate_apply [simp]: "terminate s = (Inr (), s\<lparr>terminate_flag := True\<rparr>)"
  by (simp add: terminate_def)

lemma item_at_apply [simp]: "item_at i s = (py_index (selection s) i, s)"
  by (simp add: item_at_def)

lemma bnd_apply:
  "bnd m f s = (case m s of (Inl e, s') \<Rightarrow> (Inl e, s') | (Inr v, s') \<Rightarrow> f v s')"
  by (simp add: bnd_def)

lemma thn_apply:
  "thn m k s = (case m s of (Inl e, s') \<Rightarrow> (Inl e, s') | (Inr v, s') \<Rightarrow> k s')"
  by (simp add: thn_def bnd_def)

text \<open>Rendering writes to the terminal and changes nothing else; it raises only when the
  focus is not an index of the list.\<close>

lemma render_text_effect_frame:
  "render_text_effect e t s = (render_res e t s, s\<lparr>stdout := render_out e t s\<rparr>)"
  unfolding render_res_def render_out_def render_text_effect_def
  by (auto simp: bnd_apply thn_apply try_finally_def split: sum.splits option.splits prod.splits)

lemma render_res_ok:
  "py_index (selection s) (current_index s) = Inr l \<Longrightarrow> render_res e t s = Inr ()"
  unfolding render_res_def render_text_effect_def
  by (auto simp: bnd_apply thn_apply try_finally_def py_index_def is_index_valid_def
           split: sum.splits option.splits prod.splits)

lemmas act_simps =
  bnd_apply thn_apply render_text_effect_frame is_index_selected_def is_index_banned_def
  get_opposite_mutex_index_def

lemmas key_defs = key_events_def ANSI_KEY_DOWN_def ANSI_KEY_UP_def ANSI_KEY_EOX_def ESC_def

text \<open>All the definitions of the model, for evaluating it on a concrete session.\<close>

lemmas model_defs =
  run_def selman_mainstream_def mainstream_finally_def manage_key_input_def key_events_def
  select_option_def change_focus_def proceed_def set_to_focused_def set_to_unfocused_def
  initialize_focus_def print_comments_def wipe_comments_def render_text_effect_def
  ban_selection_by_index_def unban_selection_by_index_def get_opposite_mutex_index_def
  is_index_selected_def is_index_banned_def is_index_valid_def get_relative_pos_by_index_def
  Selman_init_def bnd_def thn_def try_finally_def py_index_def dict_get_def
  move_cursor_by_relative_pos_row_def cursor_up_def cursor_down_def
  is_ansi_key_def ANSI_KEY_DOWN_def ANSI_KEY_UP_def ANSI_KEY_EOX_def ESC_def

lemma key_events_cr: "key_events [CHR 0x0D] = Some select_option"
  by (simp add: key_defs)

subsection \<open>Focus movement out of range\<close>

text \<open>
  Claim C7. When the focus index plus \<open>delta\<close> is not an index of the item list,
  \<open>change_focus delta\<close> returns without raising and leaves the whole object as it was:
  the focus index, both boards and the termination flag are unchanged, and nothing is
  written to the terminal, so no row is redrawn.
\<close>

theorem change_focus_out_of_range_noop:
  "\<not> (0 \<le> current_index s + delta \<and> current_index s + delta < int (length (selection s)))
   \<Longrightarrow> change_focus delta s = (Inr (), s)"
  by (simp add: change_focus_def)

theorem change_focus_out_of_range_noop_witness:
  "\<not> (0 \<le> current_index (Selman_init [''A'', ''B''] 0 False None None True) + (- 1)
      \<and> current_index (Selman_init [''A'', ''B''] 0 False None None True) + (- 1)
          < int (length (selection (Selman_init [''A'', ''B''] 0 False None None True))))
   \<and> change_focus (- 1) (Selman_init [''A'', ''B''] 0 False None None True)
       = (Inr (), Selman_init [''A'', ''B''] 0 False None None True)"
  using change_focus_out_of_range_noop [of "Selman_init [''A'', ''B''] 0 False None None True" "- 1"]
  by (simp add: Selman_init_def)

subsection \<open>Activation in single-selection mode\<close>

text \<open>
  Claim C3. In single-selection mode, when the focus is on the item with label \<open>label\<close>,
  \<open>select_option\<close> returns that label, marks the focused item selected and sets the
  termination flag; the loop of the session, reading the Enter key, ends on that call
  with the label as the value of the action.
\<close>

theorem select_option_single:
  assumes "\<not> allow_multiple_selection s"
      and "py_index (selection s) (current_index s) = Inr label"
  shows "\<exists>s'. select_option s = (Inr (Some label), s')
            \<and> sel_board s' label = Some True
            \<and> is_index_selected (current_index s') s' = (Inr True, s')
            \<and> terminate_flag s'
            \<and> read_loop s (CHR 0x0D # rest)
                 = Some (Inr (Some label), s'\<lparr>stdout := stdout s' @ [Flush]\<rparr>, rest)"
  using assms
  apply (subst read_loop.simps)
  apply (simp add: manage_key_input_def is_ansi_key_def ESC_def key_events_cr)
  apply (simp add: select_option_def act_simps render_res_ok dict_get_def)
  done

theorem select_option_single_witness:
  "\<not> allow_multiple_selection (Selman_init [''A'', ''B''] 0 False None None True)
   \<and> py_index (selection (Selman_init [''A'', ''B''] 0 False None None True))
        (current_index (Selman_init [''A'', ''B''] 0 False None None True)) = Inr ''A''
   \<and> (\<exists>s'. select_option (Selman_init [''A'', ''B''] 0 False None None True)
               = (Inr (Some ''A''), s')
            \<and> sel_board s' ''A'' = Some True \<and> terminate_flag s')"
  using select_option_single [of "Selman_init [''A'', ''B''] 0 False None None True" "''A''"]
  by (auto simp add: Selman_init_def py_index_def)

subsection \<open>The partner of an index in the mutex group\<close>

lemma first_opposite_hit:
  assumes "i \<in> set m" "j \<in> set m" "j \<noteq> i"
  shows "\<exists>k. first_opposite i (m # g) = Inr (Some k) \<and> k \<in> set m \<and> k \<noteq> i"
proof -
  from assms have "j \<in> set (filter (\<lambda>x. x \<noteq> i) m)" by simp
  then obtain k ks where k: "filter (\<lambda>x. x \<noteq> i) m = k # ks"
    by (cases "filter (\<lambda>x. x \<noteq> i) m") auto
  then have "k \<in> set (filter (\<lambda>x. x \<noteq> i) m)" by simp
  then have "k \<in> set m \<and> k \<noteq> i" by simp
  with assms(1) k show ?thesis by simp
qed

lemma first_opposite_total:
  "\<forall>m \<in> set g. i \<in> set m \<longrightarrow> (\<exists>j \<in> set m. j \<noteq> i) \<Longrightarrow>
   (first_opposite i g = Inr None \<and> (\<forall>m \<in> set g. i \<notin> set m))
   \<or> (\<exists>j m. first_opposite i g = Inr (Some j) \<and> find (\<lambda>m. i \<in> set m) g = Some m \<and> j \<in> set m \<and> j \<noteq> i)"
proof (induction g)
  case Nil
  then show ?case by simp
next
  case (Cons m g)
  show ?case
  proof (cases "i \<in> set m")
    case True
    with Cons.prems obtain j where j: "j \<in> set m" "j \<noteq> i" by auto
    from first_opposite_hit [OF True j] obtain k where
      "first_opposite i (m # g) = Inr (Some k)" "k \<in> set m" "k \<noteq> i" by blast
    with True show ?thesis by simp
  next
    case False
    from Cons.prems have "\<forall>m \<in> set g. i \<in> set m \<longrightarrow> (\<exists>j \<in> set m. j \<noteq> i)" by simp
    from Cons.IH [OF this] False show ?thesis by simp
  qed
qed

lemma two_members: "2 \<le> card (set m) \<Longrightarrow> \<exists>j \<in> set m. j \<noteq> i"
proof (rule ccontr)
  assume c: "2 \<le> card (set m)" and n: "\<not> (\<exists>j \<in> set m. j \<noteq> i)"
  from n have "set m \<subseteq> {i}" by blast
  then have "card (set m) \<le> card {i}" by (rule card_mono [rotated]) simp
  with c show False by simp
qed

text \<open>
  Claim C10. When every set of the mutex group that holds the index \<open>i\<close> has at least
  two members, \<open>get_opposite_mutex_index i\<close> returns without raising: it returns
  \<^verbatim>\<open>None\<close> when the group is absent or no set holds \<open>i\<close>, and otherwise a member,
  other than \<open>i\<close>, of the first set that holds \<open>i\<close>. The \<^verbatim>\<open>StopIteration\<close> of the
  empty difference does not occur.
\<close>

theorem get_opposite_mutex_index_safe:
  assumes "\<forall>g. mutex_group s = Some g \<longrightarrow> (\<forall>m \<in> set g. i \<in> set m \<longrightarrow> 2 \<le> card (set m))"
  shows "(get_opposite_mutex_index i s = (Inr None, s)
            \<and> (mutex_group s = None \<or> (\<exists>g. mutex_group s = Some g \<and> (\<forall>m \<in> set g. i \<notin> set m))))
         \<or> (\<exists>j g m. get_opposite_mutex_index i s = (Inr (Some j), s)
               \<and> mutex_group s = Some g \<and> find (\<lambda>m. i \<in> set m) g = Some m
               \<and> j \<in> set m \<and> j \<noteq> i)"
proof (cases "mutex_group s")
  case None
  then show ?thesis by (simp add: get_opposite_mutex_index_def)
next
  case (Some g)
  have "\<forall>m \<in> set g. i \<in> set m \<longrightarrow> (\<exists>j \<in> set m. j \<noteq> i)"
  proof (intro ballI impI)
    fix m assume "m \<in> set g" "i \<in> set m"
    with assms Some have "2 \<le> card (set m)" by simp
    then show "\<exists>j \<in> set m. j \<noteq> i" by (rule two_members)
  qed
  from first_opposite_total [OF this]
  show ?thesis
  proof (elim disjE conjE exE)
    assume "first_opposite i g = Inr None" "\<forall>m \<in> set g. i \<notin> set m"
    with Some show ?thesis by (simp add: get_opposite_mutex_index_def)
  next
    fix j m
    assume "first_opposite i g = Inr (Some j)" "find (\<lambda>m. i \<in> set m) g = Some m"
        "j \<in> set m" "j \<noteq> i"
    with Some have "get_opposite_mutex_index i s = (Inr (Some j), s)
               \<and> mutex_group s = Some g \<and> find (\<lambda>m. i \<in> set m) g = Some m
               \<and> j \<in> set m \<and> j \<noteq> i"
      by (simp add: get_opposite_mutex_index_def)
    then show ?thesis by blast
  qed
qed

theorem get_opposite_mutex_index_safe_witness:
  "get_opposite_mutex_index 2 (Selman_init [''A'', ''B'', ''C''] 0 True (Some [[0, 2]]) None True)
     = (Inr (Some 0), Selman_init [''A'', ''B'', ''C''] 0 True (Some [[0, 2]]) None True)"
proof -
  have h: "\<forall>g. mutex_group (Selman_init [''A'', ''B'', ''C''] 0 True (Some [[0, 2]]) None True) = Some g
        \<longrightarrow> (\<forall>m \<in> set g. 2 \<in> set m \<longrightarrow> 2 \<le> card (set m))"
    by (simp add: Selman_init_def)
  show ?thesis
    using get_opposite_mutex_index_safe [OF h]
    by (simp add: Selman_init_def get_opposite_mutex_index_def)
qed


subsection \<open>The proceed key\<close>

lemma render_res_target_ok:
  "0 \<le> t \<Longrightarrow> t < int (length (selection s)) \<Longrightarrow> render_res e (Some t) s = Inr ()"
  unfolding render_res_def render_text_effect_def
  by (auto simp: bnd_apply thn_apply try_finally_def py_index_def is_index_valid_def
           split: sum.splits option.splits prod.splits)

lemma key_events_n: "key_events ''n'' = Some (thn proceed (ret None))"
  by (simp add: key_defs)

lemma proceed_ok:
  assumes "py_index (selection s) (current_index s) = Inr label" "sel_board s label = Some v"
  shows "proceed s = (Inr (), s\<lparr>terminate_flag := True,
            stdout := render_out (if v then SELECTED else UNFOCUSED) None s\<rparr>)"
  using assms by (simp add: proceed_def act_simps render_res_ok dict_get_def)

text \<open>
  Claim C4, as stated, fails: the \<^verbatim>\<open>n\<close> key is bound to \<open>proceed\<close> whatever the mode,
  and \<open>proceed\<close> does not look at the mode. In a single-selection session the key sets
  the termination flag.
\<close>

theorem n_key_single_mode_counterexample:
  "\<not> allow_multiple_selection (Selman_init [''A'', ''B''] 0 False None None True)
   \<and> \<not> terminate_flag (Selman_init [''A'', ''B''] 0 False None None True)
   \<and> terminate_flag (snd (fst (manage_key_input ''n'' []
         (Selman_init [''A'', ''B''] 0 False None None True))))"
  by (simp add: manage_key_input_def is_ansi_key_def ESC_def key_events_n thn_apply
        proceed_ok [where label = "''A''" and v = False] Selman_init_def py_index_def)

text \<open>
  Claim C4, amended. In both modes the \<^verbatim>\<open>n\<close> key runs \<open>proceed\<close>: the focused row is
  redrawn in its resting state (selected or unfocused), the termination flag is set, the
  focus and both boards are unchanged, the action returns \<^verbatim>\<open>None\<close>, and the loop of
  the session ends on that key.
\<close>

theorem n_key_proceeds_in_both_modes:
  assumes "py_index (selection s) (current_index s) = Inr label"
      and "sel_board s label = Some v"
  shows "manage_key_input ''n'' stdin s
           = ((Inr None, s\<lparr>terminate_flag := True,
                 stdout := render_out (if v then SELECTED else UNFOCUSED) None s\<rparr>), stdin)
         \<and> read_loop s (CHR ''n'' # stdin)
           = Some (Inr None, s\<lparr>terminate_flag := True,
                 stdout := render_out (if v then SELECTED else UNFOCUSED) None s @ [Flush]\<rparr>, stdin)"
  apply (subst read_loop.simps)
  apply (simp add: manage_key_input_def is_ansi_key_def ESC_def key_events_n thn_apply
        proceed_ok [OF assms])
  done

theorem n_key_proceeds_in_both_modes_witness:
  "py_index (selection (Selman_init [''A'', ''B''] 0 False None None True))
       (current_index (Selman_init [''A'', ''B''] 0 False None None True)) = Inr ''A''
   \<and> sel_board (Selman_init [''A'', ''B''] 0 False None None True) ''A'' = Some False
   \<and> fst (fst (manage_key_input ''n'' [] (Selman_init [''A'', ''B''] 0 False None None True)))
        = Inr None
   \<and> terminate_flag (snd (fst (manage_key_input ''n'' []
        (Selman_init [''A'', ''B''] 0 False None None True))))"
  using n_key_proceeds_in_both_modes [of "Selman_init [''A'', ''B''] 0 False None None True" "''A''" False "[]"]
  by (simp add: Selman_init_def py_index_def)


subsection \<open>The value returned by a single-selection session\<close>

text \<open>
  Claim C1 on the items A, B, C in single-selection mode with the keys \<^verbatim>\<open>j\<close>,
  \<^verbatim>\<open>j\<close>, Enter: the focus ends on index 2, the label C is marked selected, the
  session ends, and \<open>run\<close> returns \<^verbatim>\<open>None\<close>, not the label: the test of
  \<^verbatim>\<open>allow_multiple_selection\<close> before the two \<^verbatim>\<open>return\<close> statements of
  \<open>selman_mainstream\<close> is the wrong way round.
\<close>

theorem run_single_returns_none:
  "map_option (\<lambda>(r, s', rest, calls).
       (r, current_index s', sel_board s' ''C'', terminate_flag s', rest, calls))
     (run old (Selman_init [''A'', ''B'', ''C''] 0 False None None True) (''jj'' @ [CHR 0x0D]))
   = Some (Inr None, 2, Some True, True, [], [Setraw, Setcbreak, Tcsetattr old])"
  by (simp add: model_defs read_loop.simps)

subsection \<open>Restoring the terminal mode\<close>

lemma wipe_comments_ok: "\<exists>out. wipe_comments s = (Inr (), s\<lparr>stdout := out\<rparr>)"
proof (cases "footer_comments s")
  case None
  then have "wipe_comments s = (Inr (), s\<lparr>stdout := stdout s\<rparr>)"
    by (simp add: wipe_comments_def)
  then show ?thesis ..
next
  case (Some cs)
  then have "wipe_comments s = (Inr (), s\<lparr>stdout := stdout (snd (wipe_comments s))\<rparr>)"
    by (simp add: wipe_comments_def thn_apply try_finally_def Let_def)
  then show ?thesis ..
qed

lemma mainstream_finally_calls:
  "\<exists>r' s'. mainstream_finally old r s = (r', s', [Setraw, Setcbreak, Tcsetattr old])"
proof -
  obtain out where w: "wipe_comments s = (Inr (), s\<lparr>stdout := out\<rparr>)"
    using wipe_comments_ok [of s] by auto
  show ?thesis
    by (cases "wipe_comments_after_select s") (simp_all add: mainstream_finally_def w Let_def)
qed

text \<open>
  Claim C8. Whenever \<open>selman_mainstream\<close> is left, by a return or by an exception of the
  \<^verbatim>\<open>try\<close> block, the calls on the terminal mode have been \<^verbatim>\<open>setraw\<close>,
  \<^verbatim>\<open>setcbreak\<close> and one \<^verbatim>\<open>tcsetattr\<close> with the mode \<open>old\<close> that
  \<^verbatim>\<open>tcgetattr\<close> returned at the start. (The session is not left only when the input
  ends before a key has ended it.)
\<close>

theorem terminal_mode_restored:
  "selman_mainstream old s stdin = None
   \<or> (\<exists>r s' rest. selman_mainstream old s stdin
          = Some (r, s', rest, [Setraw, Setcbreak, Tcsetattr old]))"
proof -
  let ?pre = "thn (emit (set_cursor_visibility False @ enable_autowrap False))
             (thn (\<lambda>s1. (if allow_multiple_selection s1
                          then emit (set_col_offset (col_offset s1)) else ret ()) s1)
                (thn print_comments (thn initialize_focus (emit [Flush])))) s"
  obtain pr s1 where pre: "?pre = (pr, s1)" by (cases ?pre)
  show ?thesis
  proof (cases pr)
    case (Inl e)
    obtain r' s' where "mainstream_finally old (Inl e) s1 = (r', s', [Setraw, Setcbreak, Tcsetattr old])"
      using mainstream_finally_calls [of old "Inl e" s1] by auto
    with pre Inl show ?thesis by (simp add: selman_mainstream_def)
  next
    case (Inr u)
    show ?thesis
    proof (cases "read_loop s1 stdin")
      case None
      with pre Inr show ?thesis by (simp add: selman_mainstream_def)
    next
      case (Some res)
      obtain r s2 rest where res: "res = (r, s2, rest)" by (cases res)
      obtain r' s' where "mainstream_finally old r s2 = (r', s', [Setraw, Setcbreak, Tcsetattr old])"
        using mainstream_finally_calls [of old r s2] by auto
      with pre Inr Some res show ?thesis by (simp add: selman_mainstream_def)
    qed
  qed
qed


theorem terminal_mode_restored_witness:
  "\<exists>s' rest. selman_mainstream (1::nat) (Selman_init [''A''] 0 True (Some [[0]]) None True) [CHR 0x0D]
      = Some (Inl StopIteration, s', rest, [Setraw, Setcbreak, Tcsetattr 1])"
proof -
  have "map_option fst
          (selman_mainstream (1::nat) (Selman_init [''A''] 0 True (Some [[0]]) None True) [CHR 0x0D])
        = Some (Inl StopIteration)"
    by (simp add: model_defs read_loop.simps)
  with terminal_mode_restored [of "1::nat" "Selman_init [''A''] 0 True (Some [[0]]) None True" "[CHR 0x0D]"]
  show ?thesis by auto
qed

text \<open>The exit paths one by one: activation, proceed, quit, Ctrl-C, and an exception raised
  before the loop (the item list is empty).\<close>

lemma exit_paths:
  "map_option (\<lambda>(r, s', rest, calls). (r, calls))
     (selman_mainstream old (Selman_init [''A'', ''B''] 0 False None None True) [CHR 0x0D])
   = Some (Inr None, [Setraw, Setcbreak, Tcsetattr old])"
  "map_option (\<lambda>(r, s', rest, calls). (r, calls))
     (selman_mainstream old (Selman_init [''A'', ''B''] 0 True None None True) ''n'')
   = Some (Inr None, [Setraw, Setcbreak, Tcsetattr old])"
  "map_option (\<lambda>(r, s', rest, calls). (r, calls))
     (selman_mainstream old (Selman_init [''A'', ''B''] 0 True None None True) ''q'')
   = Some (Inr None, [Setraw, Setcbreak, Tcsetattr old])"
  "map_option (\<lambda>(r, s', rest, calls). (r, calls))
     (selman_mainstream old (Selman_init [''A'', ''B''] 0 True None None True) [CHR 0x03])
   = Some (Inr None, [Setraw, Setcbreak, Tcsetattr old])"
  "map_option (\<lambda>(r, s', rest, calls). (r, calls))
     (selman_mainstream old (Selman_init [] 0 True None None True) ''q'')
   = Some (Inl IndexError, [Setraw, Setcbreak, Tcsetattr old])"
  by (simp_all add: model_defs read_loop.simps)

text \<open>A session does return when the input goes on long enough: three \<^verbatim>\<open>q\<close> keys end
  it at the latest, since an escape byte takes at most two of them with it.\<close>

lemma read_loop_step:
  "read_loop s (x # xs) =
     (case manage_key_input [x] xs s of
        ((Inl e, s'), rest) \<Rightarrow> Some (Inl e, s', rest)
      | ((Inr v, s'), rest) \<Rightarrow>
          if terminate_flag s' then Some (Inr v, s'\<lparr>stdout := stdout s' @ [Flush]\<rparr>, rest)
          else read_loop (s'\<lparr>stdout := stdout s' @ [Flush]\<rparr>) rest)"
  by (subst read_loop.simps) (simp split: prod.splits sum.splits)

lemma manage_key_input_rest:
  "snd (manage_key_input [x] xs s) = (if x = CHR 0x1B then drop 2 xs else xs)"
  by (simp add: manage_key_input_def is_ansi_key_def ESC_def Let_def)

lemma read_loop_q:
  "read_loop s (CHR ''q'' # rest)
     = Some (Inr None, s\<lparr>terminate_flag := True, stdout := stdout s @ [Flush]\<rparr>, rest)"
  by (simp add: read_loop_step manage_key_input_def is_ansi_key_def key_defs thn_apply)

lemma read_loop_returns:
  "read_loop s (inp @ ''qqq'') \<noteq> None"
proof (induction inp arbitrary: s rule: length_induct)
  case (1 inp)
  show ?case
  proof (cases inp)
    case Nil
    then show ?thesis by (simp add: read_loop_q)
  next
    case (Cons x xs)
    obtain r s' rest where m: "manage_key_input [x] (xs @ ''qqq'') s = ((r, s'), rest)"
      by (cases "manage_key_input [x] (xs @ ''qqq'') s") auto
    have rest: "rest = (if x = CHR 0x1B then drop 2 (xs @ ''qqq'') else xs @ ''qqq'')"
      using manage_key_input_rest [of x "xs @ ''qqq''" s] m by simp
    have cont: "read_loop s2 rest \<noteq> None" for s2
    proof (cases "x = CHR 0x1B")
      case False
      with rest Cons "1.IH" show ?thesis by simp
    next
      case True
      show ?thesis
      proof (cases xs)
        case Nil
        with rest True show ?thesis by (simp add: read_loop_q)
      next
        case c1: (Cons a ys)
        show ?thesis
        proof (cases ys)
          case Nil
          with rest True c1 show ?thesis by (simp add: read_loop_q)
        next
          case c2: (Cons b zs)
          with rest True c1 have "rest = zs @ ''qqq''" by simp
          moreover have "length zs < length inp" using Cons c1 c2 by simp
          ultimately show ?thesis using "1.IH" by simp
        qed
      qed
    qed
    show ?thesis
    proof (cases r)
      case (Inl e)
      with m Cons show ?thesis by (simp add: read_loop_step)
    next
      case (Inr v)
      with m Cons cont show ?thesis by (simp add: read_loop_step)
    qed
  qed
qed

lemma selman_mainstream_returns:
  "selman_mainstream old s (inp @ ''qqq'') \<noteq> None"
proof -
  let ?pre = "thn (emit (set_cursor_visibility False @ enable_autowrap False))
             (thn (\<lambda>s1. (if allow_multiple_selection s1
                          then emit (set_col_offset (col_offset s1)) else ret ()) s1)
                (thn print_comments (thn initialize_focus (emit [Flush])))) s"
  obtain pr s1 where pre: "?pre = (pr, s1)" by (cases ?pre)
  show ?thesis
  proof (cases pr)
    case (Inl e)
    with pre show ?thesis by (simp add: selman_mainstream_def split: prod.splits)
  next
    case (Inr u)
    obtain res where "read_loop s1 (inp @ ''qqq'') = Some res"
      using read_loop_returns [of s1 inp] by auto
    with pre Inr show ?thesis by (simp add: selman_mainstream_def split: prod.splits)
  qed
qed


subsection \<open>Flags are kept per label\<close>

text \<open>
  Claim C9. The two boards are keyed by label. For two different indices \<open>i\<close> and \<open>j\<close>
  of the list that carry the same label, in every state reading the selected or the
  banned flag at \<open>i\<close> gives what reading it at \<open>j\<close> gives, and a write at \<open>i\<close> is
  a write at \<open>j\<close>: banning \<open>i\<close> bans and deselects \<open>j\<close>, unbanning \<open>i\<close> unbans
  \<open>j\<close>, and activating with the focus on \<open>i\<close> selects \<open>j\<close> in single-selection mode
  and toggles \<open>j\<close> in multi-selection mode. So the flags are per item only when no two
  items share a label.
\<close>

theorem flags_keyed_by_label:
  assumes "0 \<le> i" "i < int (length (selection s))" "0 \<le> j" "j < int (length (selection s))"
      and "i \<noteq> j" "selection s ! nat i = selection s ! nat j"
  shows "fst (is_index_selected i s) = fst (is_index_selected j s)
       \<and> fst (is_index_banned i s) = fst (is_index_banned j s)
       \<and> fst (is_index_selected j (snd (ban_selection_by_index i r s))) = Inr False
       \<and> fst (is_index_banned j (snd (ban_selection_by_index i r s))) = Inr True
       \<and> fst (is_index_banned j (snd (unban_selection_by_index i r s))) = Inr False
       \<and> (current_index s = i \<and> \<not> allow_multiple_selection s
            \<longrightarrow> fst (is_index_selected j (snd (select_option s))) = Inr True)
       \<and> (current_index s = i \<and> allow_multiple_selection s \<and> mutex_group s = None
            \<longrightarrow> fst (is_index_selected j (snd (select_option s)))
                = map_sum id Not (fst (is_index_selected j s)))"
proof -
  have pi: "py_index (selection s) i = Inr (selection s ! nat j)"
    and pj: "py_index (selection s) j = Inr (selection s ! nat j)"
    using assms by (simp_all add: py_index_def)
  have reads: "fst (is_index_selected i s) = fst (is_index_selected j s)"
      "fst (is_index_banned i s) = fst (is_index_banned j s)"
    by (simp_all add: act_simps pi pj)
  have ban: "fst (is_index_selected j (snd (ban_selection_by_index i r s))) = Inr False"
      "fst (is_index_banned j (snd (ban_selection_by_index i r s))) = Inr True"
    using assms(1,2)
    by (simp_all add: ban_selection_by_index_def act_simps pi pj render_res_target_ok dict_get_def)
  have unban: "fst (is_index_banned j (snd (unban_selection_by_index i r s))) = Inr False"
    using assms(1,2)
    by (simp add: unban_selection_by_index_def act_simps pi pj render_res_target_ok dict_get_def)
  have single: "fst (is_index_selected j (snd (select_option s))) = Inr True"
    if "current_index s = i" "\<not> allow_multiple_selection s"
    using that by (simp add: select_option_def act_simps pi pj render_res_ok dict_get_def)
  have multi: "fst (is_index_selected j (snd (select_option s)))
                = map_sum id Not (fst (is_index_selected j s))"
    if "current_index s = i" "allow_multiple_selection s" "mutex_group s = None"
    using that
    by (cases "sel_board s (selection s ! nat j)")
       (simp_all add: select_option_def unban_selection_by_index_def act_simps pi pj
          render_res_ok dict_get_def)
  from reads ban unban single multi show ?thesis by simp
qed

theorem flags_keyed_by_label_witness:
  "fst (is_index_selected 2 (snd (ban_selection_by_index 0 True
       (Selman_init [''X'', ''Y'', ''X''] 0 False None None True)))) = Inr False
   \<and> fst (is_index_banned 2 (snd (ban_selection_by_index 0 True
       (Selman_init [''X'', ''Y'', ''X''] 0 False None None True)))) = Inr True
   \<and> fst (is_index_selected 2 (snd (select_option
       (Selman_init [''X'', ''Y'', ''X''] 0 False None None True)))) = Inr True"
  using flags_keyed_by_label [of 0 "Selman_init [''X'', ''Y'', ''X''] 0 False None None True" 2 True]
  by (simp add: Selman_init_def)


subsection \<open>What the operations leave unchanged\<close>

text \<open>Moving the focus and proceeding leave both boards alone; banning, unbanning and
  activating leave the focus alone and never remove an entry of a board. No operation
  assigns the item list, the mode or the mutex group.\<close>

lemma set_to_unfocused_frame:
  "\<exists>r out. set_to_unfocused t s = (r, s\<lparr>stdout := out\<rparr>)"
proof -
  have "set_to_unfocused t s = (fst (set_to_unfocused t s), s\<lparr>stdout := stdout (snd (set_to_unfocused t s))\<rparr>)"
    by (auto simp: set_to_unfocused_def act_simps split: sum.splits)
  then show ?thesis by blast
qed

lemma set_to_focused_frame:
  "\<exists>r out. set_to_focused t s = (r, s\<lparr>stdout := out\<rparr>)"
proof -
  have "set_to_focused t s = (fst (set_to_focused t s), s\<lparr>stdout := stdout (snd (set_to_focused t s))\<rparr>)"
    by (auto simp: set_to_focused_def act_simps split: sum.splits)
  then show ?thesis by blast
qed

lemma change_focus_frame:
  "\<exists>r c out. change_focus d s = (r, s\<lparr>current_index := c, stdout := out\<rparr>)
      \<and> (c = current_index s \<or> c = current_index s + d \<and> 0 \<le> c \<and> c < int (length (selection s)))"
proof (cases "0 \<le> current_index s + d \<and> current_index s + d < int (length (selection s))")
  case False
  then have "change_focus d s = (Inr (), s\<lparr>current_index := current_index s, stdout := stdout s\<rparr>)"
    by (simp add: change_focus_def)
  then show ?thesis by blast
next
  case True
  obtain r1 o1 where u: "set_to_unfocused (current_index s) s = (r1, s\<lparr>stdout := o1\<rparr>)"
    using set_to_unfocused_frame by blast
  show ?thesis
  proof (cases r1)
    case (Inl e)
    with True u have "change_focus d s = (Inl e, s\<lparr>current_index := current_index s, stdout := o1\<rparr>)"
      by (simp add: change_focus_def thn_apply Let_def)
    then show ?thesis by blast
  next
    case (Inr v)
    let ?s2 = "s\<lparr>current_index := current_index s + d,
                 stdout := o1 @ fst (move_cursor_by_relative_pos_row d)\<rparr>"
    obtain r2 o2 where f: "set_to_focused (current_index s + d) ?s2 = (r2, ?s2\<lparr>stdout := o2\<rparr>)"
      using set_to_focused_frame by blast
    with True u Inr have "change_focus d s = (r2, s\<lparr>current_index := current_index s + d, stdout := o2\<rparr>)"
      by (simp add: change_focus_def thn_apply Let_def)
    with True show ?thesis by blast
  qed
qed

lemma proceed_frame:
  "\<exists>r t out. proceed s = (r, s\<lparr>terminate_flag := t, stdout := out\<rparr>)"
proof -
  have "proceed s = (fst (proceed s), s\<lparr>terminate_flag := terminate_flag (snd (proceed s)),
            stdout := stdout (snd (proceed s))\<rparr>)"
    by (auto simp: proceed_def act_simps split: sum.splits)
  then show ?thesis by blast
qed


lemma ban_selection_by_index_frame:
  "\<exists>r sb bb out. ban_selection_by_index t dr s
       = (r, s\<lparr>sel_board := sb, banned_board := bb, stdout := out\<rparr>)
     \<and> dom (sel_board s) \<subseteq> dom sb \<and> dom (banned_board s) \<subseteq> dom bb"
proof -
  let ?s' = "snd (ban_selection_by_index t dr s)"
  have "ban_selection_by_index t dr s
      = (fst (ban_selection_by_index t dr s),
         s\<lparr>sel_board := sel_board ?s', banned_board := banned_board ?s', stdout := stdout ?s'\<rparr>)"
    by (auto simp: ban_selection_by_index_def act_simps split: sum.splits)
  moreover have "dom (sel_board s) \<subseteq> dom (sel_board ?s')"
    by (auto simp: ban_selection_by_index_def act_simps split: sum.splits)
  moreover have "dom (banned_board s) \<subseteq> dom (banned_board ?s')"
    by (auto simp: ban_selection_by_index_def act_simps split: sum.splits)
  ultimately show ?thesis by blast
qed

lemma unban_selection_by_index_frame:
  "\<exists>r sb bb out. unban_selection_by_index t dr s
       = (r, s\<lparr>sel_board := sb, banned_board := bb, stdout := out\<rparr>)
     \<and> dom (sel_board s) \<subseteq> dom sb \<and> dom (banned_board s) \<subseteq> dom bb"
proof -
  let ?s' = "snd (unban_selection_by_index t dr s)"
  have "unban_selection_by_index t dr s
      = (fst (unban_selection_by_index t dr s),
         s\<lparr>sel_board := sel_board ?s', banned_board := banned_board ?s', stdout := stdout ?s'\<rparr>)"
    by (auto simp: unban_selection_by_index_def act_simps split: sum.splits)
  moreover have "dom (sel_board s) \<subseteq> dom (sel_board ?s')"
    by (auto simp: unban_selection_by_index_def act_simps split: sum.splits)
  moreover have "dom (banned_board s) \<subseteq> dom (banned_board ?s')"
    by (auto simp: unban_selection_by_index_def act_simps split: sum.splits)
  ultimately show ?thesis by blast
qed

lemma select_option_frame:
  "\<exists>r sb bb tf out. select_option s
       = (r, s\<lparr>sel_board := sb, banned_board := bb, terminate_flag := tf, stdout := out\<rparr>)
     \<and> dom (sel_board s) \<subseteq> dom sb \<and> dom (banned_board s) \<subseteq> dom bb"
proof -
  let ?s' = "snd (select_option s)"
  have "select_option s
      = (fst (select_option s),
         s\<lparr>sel_board := sel_board ?s', banned_board := banned_board ?s',
           terminate_flag := terminate_flag ?s', stdout := stdout ?s'\<rparr>)"
    by (auto simp: select_option_def ban_selection_by_index_def unban_selection_by_index_def
          act_simps split: sum.splits option.splits)
  moreover have "dom (sel_board s) \<subseteq> dom (sel_board ?s')"
    by (auto simp: select_option_def ban_selection_by_index_def unban_selection_by_index_def
          act_simps split: sum.splits option.splits)
  moreover have "dom (banned_board s) \<subseteq> dom (banned_board ?s')"
    by (auto simp: select_option_def ban_selection_by_index_def unban_selection_by_index_def
          act_simps split: sum.splits option.splits)
  ultimately show ?thesis by blast
qed


lemma apply_operation_frame:
  "same_config s (apply_operation op s)
     \<and> (current_index (apply_operation op s) = current_index s
          \<or> 0 \<le> current_index (apply_operation op s)
            \<and> current_index (apply_operation op s) < int (length (selection s)))
     \<and> dom (sel_board s) \<subseteq> dom (sel_board (apply_operation op s))
     \<and> dom (banned_board s) \<subseteq> dom (banned_board (apply_operation op s))"
proof (cases op)
  case (Change_focus d)
  obtain r c out where "change_focus d s = (r, s\<lparr>current_index := c, stdout := out\<rparr>)"
    "c = current_index s \<or> c = current_index s + d \<and> 0 \<le> c \<and> c < int (length (selection s))"
    using change_focus_frame [of d s] by auto
  with Change_focus show ?thesis by (auto simp: same_config_def)
next
  case Select_option
  obtain r sb bb tf out where "select_option s
       = (r, s\<lparr>sel_board := sb, banned_board := bb, terminate_flag := tf, stdout := out\<rparr>)"
     "dom (sel_board s) \<subseteq> dom sb" "dom (banned_board s) \<subseteq> dom bb"
    using select_option_frame [of s] by auto
  with Select_option show ?thesis by (simp add: same_config_def)
next
  case Proceed
  obtain r tf out where "proceed s = (r, s\<lparr>terminate_flag := tf, stdout := out\<rparr>)"
    using proceed_frame [of s] by auto
  with Proceed show ?thesis by (simp add: same_config_def)
next
  case Terminate
  then show ?thesis by (simp add: same_config_def)
next
  case (Ban t dr)
  obtain r sb bb out where "ban_selection_by_index t dr s
       = (r, s\<lparr>sel_board := sb, banned_board := bb, stdout := out\<rparr>)"
     "dom (sel_board s) \<subseteq> dom sb" "dom (banned_board s) \<subseteq> dom bb"
    using ban_selection_by_index_frame [of t dr s] by auto
  with Ban show ?thesis by (simp add: same_config_def)
next
  case (Unban t dr)
  obtain r sb bb out where "unban_selection_by_index t dr s
       = (r, s\<lparr>sel_board := sb, banned_board := bb, stdout := out\<rparr>)"
     "dom (sel_board s) \<subseteq> dom sb" "dom (banned_board s) \<subseteq> dom bb"
    using unban_selection_by_index_frame [of t dr s] by auto
  with Unban show ?thesis by (simp add: same_config_def)
qed

lemma apply_operation_config: "same_config s (apply_operation op s)"
  using apply_operation_frame [of s op] by simp

lemma apply_operation_state_ok:
  assumes "state_ok s"
  shows "state_ok (apply_operation op s)"
proof -
  let ?s' = "apply_operation op s"
  note f = apply_operation_frame [of s op]
  have sel: "selection ?s' = selection s"
    using f by (simp add: same_config_def)
  have c: "0 \<le> current_index ?s' \<and> current_index ?s' < int (length (selection s))"
    using f assms by (auto simp: state_ok_def)
  have "set (selection s) \<subseteq> dom (sel_board s)" "dom (sel_board s) \<subseteq> dom (sel_board ?s')"
    using f assms by (simp_all add: state_ok_def)
  then have d1: "set (selection s) \<subseteq> dom (sel_board ?s')" by (rule subset_trans)
  have "set (selection s) \<subseteq> dom (banned_board s)"
    "dom (banned_board s) \<subseteq> dom (banned_board ?s')"
    using f assms by (simp_all add: state_ok_def)
  then have d2: "set (selection s) \<subseteq> dom (banned_board ?s')" by (rule subset_trans)
  from sel c d1 d2 show ?thesis by (simp add: state_ok_def)
qed

lemma apply_operations_Nil [simp]: "apply_operations [] s = s"
  by (simp add: apply_operations_def)

lemma apply_operations_Cons [simp]:
  "apply_operations (op # ops) s = apply_operations ops (apply_operation op s)"
  by (simp add: apply_operations_def)

lemma same_config_trans: "same_config a b \<Longrightarrow> same_config b c \<Longrightarrow> same_config a c"
  by (simp add: same_config_def)

lemma apply_operations_config: "same_config s (apply_operations ops s)"
proof (induction ops arbitrary: s)
  case Nil
  show ?case by (simp add: same_config_def)
next
  case (Cons op ops)
  from apply_operation_config [of s op] Cons [of "apply_operation op s"]
  show ?case by (simp add: same_config_trans)
qed

lemma apply_operations_state_ok: "state_ok s \<Longrightarrow> state_ok (apply_operations ops s)"
  by (induction ops arbitrary: s) (simp_all add: apply_operation_state_ok)

lemma map_of_const:
  "map_of (map (\<lambda>item. (item, v)) xs) l = (if l \<in> set xs then Some v else None)"
  by (induction xs) auto

lemma Selman_init_state_ok:
  "sel \<noteq> [] \<Longrightarrow> state_ok (Selman_init sel co multi mg fc wipe)"
  by (auto simp: state_ok_def Selman_init_def map_of_const dom_def)


subsection \<open>Selected and banned exclude each other\<close>

lemma change_focus_flags: "session_flags (snd (change_focus d s)) = session_flags s"
proof -
  obtain r c out where "change_focus d s = (r, s\<lparr>current_index := c, stdout := out\<rparr>)"
    using change_focus_frame [of d s] by auto
  then show ?thesis by (simp add: session_flags_def flags_exclusive_def)
qed

lemma proceed_flags: "session_flags (snd (proceed s)) = session_flags s"
proof -
  obtain r tf out where "proceed s = (r, s\<lparr>terminate_flag := tf, stdout := out\<rparr>)"
    using proceed_frame [of s] by auto
  then show ?thesis by (simp add: session_flags_def flags_exclusive_def)
qed

lemma ban_flags:
  "allow_multiple_selection s \<Longrightarrow> session_flags s
   \<Longrightarrow> session_flags (snd (ban_selection_by_index t r s))"
  by (auto simp: ban_selection_by_index_def act_simps session_flags_def flags_exclusive_def
           split: sum.splits)

lemma unban_flags:
  "session_flags s \<Longrightarrow> session_flags (snd (unban_selection_by_index t r s))"
  by (auto simp: unban_selection_by_index_def act_simps session_flags_def flags_exclusive_def
           split: sum.splits)

lemma select_flags: "session_flags s \<Longrightarrow> session_flags (snd (select_option s))"
  by (auto simp: select_option_def ban_selection_by_index_def unban_selection_by_index_def
        act_simps session_flags_def flags_exclusive_def split: sum.splits option.splits)

lemma apply_operation_flags:
  assumes "allow_multiple_selection s \<or> \<not> is_ban op" "session_flags s"
  shows "session_flags (apply_operation op s)"
proof (cases op)
  case (Ban t r)
  with assms show ?thesis by (simp add: ban_flags)
next
  case Terminate
  with assms show ?thesis by (simp add: session_flags_def flags_exclusive_def)
qed (use assms in \<open>simp_all add: change_focus_flags proceed_flags unban_flags select_flags\<close>)

lemma apply_operations_flags:
  "allow_multiple_selection s \<or> (\<forall>op \<in> set ops. \<not> is_ban op) \<Longrightarrow> session_flags s
   \<Longrightarrow> session_flags (apply_operations ops s)"
proof (induction ops arbitrary: s)
  case Nil
  then show ?case by simp
next
  case (Cons op ops)
  have m: "allow_multiple_selection (apply_operation op s) = allow_multiple_selection s"
    using apply_operation_config [of s op] by (simp add: same_config_def)
  from Cons.prems have "session_flags (apply_operation op s)"
    by (intro apply_operation_flags) auto
  moreover from Cons.prems m have "allow_multiple_selection (apply_operation op s)
      \<or> (\<forall>op \<in> set ops. \<not> is_ban op)" by auto
  ultimately show ?case using Cons.IH by simp
qed

lemma Selman_init_flags: "session_flags (Selman_init sel co multi mg fc wipe)"
  by (simp add: session_flags_def flags_exclusive_def Selman_init_def map_of_const)

text \<open>The state after a key is the state after at most one operation, and a key never
  calls the ban or the unban method directly.\<close>

lemma snd_thn_ret: "snd (thn m (ret v) s) = snd (m s)"
  by (cases "m s") (auto simp: thn_apply split: sum.splits)

lemma manage_key_input_operation:
  "\<exists>ops. snd (fst (manage_key_input k stdin s)) = apply_operations ops s
      \<and> list_all (\<lambda>op. \<not> is_ban op) ops"
proof (cases "key_events (if is_ansi_key k then k @ take 2 stdin else k)")
  case None
  then have "snd (fst (manage_key_input k stdin s)) = apply_operations [] s"
    by (simp add: manage_key_input_def Let_def)
  then show ?thesis by (intro exI [of _ "[]"]) simp
next
  case (Some action)
  then have a: "snd (fst (manage_key_input k stdin s)) = snd (action s)"
    by (simp add: manage_key_input_def Let_def)
  from Some consider "action = thn (change_focus 1) (ret None)"
    | "action = thn (change_focus (- 1)) (ret None)"
    | "action = select_option"
    | "action = thn proceed (ret None)"
    | "action = thn terminate (ret None)"
    by (auto simp: key_events_def split: if_splits)
  then show ?thesis
  proof cases
    case 1
    with a show ?thesis by (intro exI [of _ "[Change_focus 1]"]) (simp add: snd_thn_ret)
  next
    case 2
    with a show ?thesis by (intro exI [of _ "[Change_focus (- 1)]"]) (simp add: snd_thn_ret)
  next
    case 3
    with a show ?thesis by (intro exI [of _ "[Select_option]"]) simp
  next
    case 4
    with a show ?thesis by (intro exI [of _ "[Proceed]"]) (simp add: snd_thn_ret)
  next
    case 5
    with a show ?thesis by (intro exI [of _ "[Terminate]"]) (simp add: snd_thn_ret thn_apply)
  qed
qed

text \<open>
  Claim C5. After every sequence of operations on a freshly constructed object (moving the
  focus, activating, proceeding, terminating, banning, unbanning; a call that raised
  included) no item is both selected and banned. In single-selection mode the sequence
  has no direct call of the ban method: a session never makes one, since only activation
  in multi-selection mode bans.
\<close>

theorem selected_banned_exclusive:
  assumes "multi \<or> (\<forall>op \<in> set ops. \<not> is_ban op)"
  shows "flags_exclusive (apply_operations ops (Selman_init sel co multi mg fc wipe))
       \<and> \<not> (fst (is_index_selected i (apply_operations ops (Selman_init sel co multi mg fc wipe)))
              = Inr True
            \<and> fst (is_index_banned i (apply_operations ops (Selman_init sel co multi mg fc wipe)))
              = Inr True)"
proof -
  let ?s = "apply_operations ops (Selman_init sel co multi mg fc wipe)"
  have "allow_multiple_selection (Selman_init sel co multi mg fc wipe)
          \<or> (\<forall>op \<in> set ops. \<not> is_ban op)"
    using assms by (simp add: Selman_init_def)
  then have "session_flags ?s"
    by (rule apply_operations_flags) (rule Selman_init_flags)
  then have fe: "flags_exclusive ?s" by (simp add: session_flags_def)
  have "\<not> (fst (is_index_selected i ?s) = Inr True \<and> fst (is_index_banned i ?s) = Inr True)"
  proof (cases "py_index (selection ?s) i")
    case (Inl e)
    then show ?thesis by (simp add: act_simps)
  next
    case (Inr l)
    with fe show ?thesis
      by (auto simp: act_simps dict_get_def flags_exclusive_def split: option.splits)
  qed
  with fe show ?thesis by simp
qed

theorem selected_banned_exclusive_witness:
  "\<not> (fst (is_index_selected 0 (apply_operations [Select_option, Change_focus 1, Select_option]
           (Selman_init [''A'', ''B''] 0 True (Some [[0, 1]]) None True))) = Inr True
      \<and> fst (is_index_banned 0 (apply_operations [Select_option, Change_focus 1, Select_option]
           (Selman_init [''A'', ''B''] 0 True (Some [[0, 1]]) None True))) = Inr True)
   \<and> fst (is_index_banned 0 (apply_operations [Select_option, Change_focus 1, Select_option]
           (Selman_init [''A'', ''B''] 0 True (Some [[0, 1]]) None True))) = Inr True
   \<and> fst (is_index_selected 1 (apply_operations [Select_option, Change_focus 1, Select_option]
           (Selman_init [''A'', ''B''] 0 True (Some [[0, 1]]) None True))) = Inr True"
proof -
  have e: "fst (is_index_banned 0 (apply_operations [Select_option, Change_focus 1, Select_option]
           (Selman_init [''A'', ''B''] 0 True (Some [[0, 1]]) None True))) = Inr True
     \<and> fst (is_index_selected 1 (apply_operations [Select_option, Change_focus 1, Select_option]
           (Selman_init [''A'', ''B''] 0 True (Some [[0, 1]]) None True))) = Inr True"
    by (simp add: model_defs)
  from selected_banned_exclusive [of True "[Select_option, Change_focus 1, Select_option]"
      "[''A'', ''B'']" 0 "Some [[0, 1]]" None True 0] e
  show ?thesis by simp
qed

text \<open>The condition on single-selection mode cannot be dropped for calls made outside a
  session: after a direct call of the ban method, activating in single-selection mode
  selects the banned item without unbanning it.\<close>

lemma direct_ban_then_select_single:
  "fst (is_index_selected 0 (apply_operations [Ban 0 True, Select_option]
       (Selman_init [''A'', ''B''] 0 False None None True))) = Inr True
   \<and> fst (is_index_banned 0 (apply_operations [Ban 0 True, Select_option]
       (Selman_init [''A'', ''B''] 0 False None None True))) = Inr True"
  by (simp add: model_defs)


subsection \<open>Activation in multi-selection mode\<close>

text \<open>What one activation does to the two boards when the focus is an index of the list,
  every label has its entries and the partner, if there is one, is an index of the list:
  the case of an unselected item under the focus, then the case of a selected one.\<close>

lemma get_opposite_partner: "get_opposite_mutex_index i s = (partner s i, s)"
  by (simp add: partner_def get_opposite_mutex_index_def split: option.splits)

lemma partner_cong: "mutex_group s' = mutex_group s \<Longrightarrow> partner s' i = partner s i"
  by (simp add: partner_def get_opposite_mutex_index_def split: option.splits)

lemma partner_updates [simp]:
  "partner (s\<lparr>sel_board := sb\<rparr>) i = partner s i"
  "partner (s\<lparr>banned_board := bb\<rparr>) i = partner s i"
  "partner (s\<lparr>stdout := out\<rparr>) i = partner s i"
  "partner (s\<lparr>current_index := c\<rparr>) i = partner s i"
  "partner (s\<lparr>terminate_flag := tf\<rparr>) i = partner s i"
  by (simp_all add: partner_def get_opposite_mutex_index_def split: option.splits)

lemmas sel_simps =
  bnd_apply thn_apply render_text_effect_frame is_index_selected_def is_index_banned_def
  get_opposite_partner

lemma select_option_on:
  assumes "allow_multiple_selection s" "state_ok s"
      and "sel_board s (selection s ! nat (current_index s)) = Some False"
      and "partner s (current_index s) = Inr opp"
      and "\<And>q. opp = Some q \<Longrightarrow> 0 \<le> q \<and> q < int (length (selection s))"
  shows "fst (select_option s) = Inr None
       \<and> sel_board (snd (select_option s))
           = (case opp of
                None \<Rightarrow> (sel_board s)(selection s ! nat (current_index s) \<mapsto> True)
              | Some q \<Rightarrow> (sel_board s)(selection s ! nat (current_index s) \<mapsto> True,
                                          selection s ! nat q \<mapsto> False))
       \<and> banned_board (snd (select_option s))
           = (case opp of
                None \<Rightarrow> (banned_board s)(selection s ! nat (current_index s) \<mapsto> False)
              | Some q \<Rightarrow> (banned_board s)(selection s ! nat (current_index s) \<mapsto> False,
                                             selection s ! nat q \<mapsto> True))"
proof -
  have c: "py_index (selection s) (current_index s) = Inr (selection s ! nat (current_index s))"
    using assms(2) by (simp add: state_ok_def py_index_def)
  show ?thesis
  proof (cases opp)
    case None
    with assms c show ?thesis
      by (simp add: select_option_def unban_selection_by_index_def sel_simps dict_get_def
            render_res_ok)
  next
    case (Some q)
    with assms(5) have q: "py_index (selection s) q = Inr (selection s ! nat q)"
      "0 \<le> q" "q < int (length (selection s))"
      by (simp_all add: py_index_def)
    with Some assms(1-4) c show ?thesis
      by (simp add: select_option_def unban_selection_by_index_def ban_selection_by_index_def
            sel_simps dict_get_def render_res_ok)
  qed
qed

lemma select_option_off:
  assumes "allow_multiple_selection s" "state_ok s"
      and "sel_board s (selection s ! nat (current_index s)) = Some True"
      and "partner s (current_index s) = Inr opp"
      and "\<And>q. opp = Some q \<Longrightarrow> 0 \<le> q \<and> q < int (length (selection s))"
  shows "fst (select_option s) = Inr None
       \<and> sel_board (snd (select_option s))
           = (sel_board s)(selection s ! nat (current_index s) \<mapsto> False)
       \<and> banned_board (snd (select_option s))
           = (case opp of
                None \<Rightarrow> banned_board s
              | Some q \<Rightarrow> if banned_board s (selection s ! nat q) = Some True
                          then (banned_board s)(selection s ! nat q \<mapsto> False)
                          else banned_board s)"
proof -
  have c: "py_index (selection s) (current_index s) = Inr (selection s ! nat (current_index s))"
    using assms(2) by (simp add: state_ok_def py_index_def)
  show ?thesis
  proof (cases opp)
    case None
    with assms c show ?thesis
      by (simp add: select_option_def sel_simps dict_get_def render_res_ok)
  next
    case (Some q)
    with assms(5) have q: "py_index (selection s) q = Inr (selection s ! nat q)"
      "0 \<le> q" "q < int (length (selection s))"
      by (simp_all add: py_index_def)
    then have "selection s ! nat q \<in> set (selection s)" by simp
    with assms(2) obtain v where v: "banned_board s (selection s ! nat q) = Some v"
      by (auto simp: state_ok_def)
    with Some assms(1-4) c q show ?thesis
      by (cases v)
         (simp_all add: select_option_def unban_selection_by_index_def
            sel_simps dict_get_def render_res_ok)
  qed
qed


subsection \<open>Toggling one item\<close>

lemma select_option_focus: "current_index (snd (select_option s)) = current_index s"
proof -
  obtain r sb bb tf out where "select_option s
       = (r, s\<lparr>sel_board := sb, banned_board := bb, terminate_flag := tf, stdout := out\<rparr>)"
    using select_option_frame [of s] by auto
  then show ?thesis by simp
qed

lemma select_option_config: "same_config s (snd (select_option s))"
  using apply_operation_config [of s Select_option] by simp

lemma select_option_state_ok: "state_ok s \<Longrightarrow> state_ok (snd (select_option s))"
  using apply_operation_state_ok [of s Select_option] by simp

lemma activate_times_0 [simp]: "activate_times 0 s = s"
  by (simp add: activate_times_def)

lemma activate_times_Suc [simp]:
  "activate_times (Suc n) s = snd (select_option (activate_times n s))"
  by (simp add: activate_times_def)

lemma read_flag:
  "0 \<le> i \<Longrightarrow> i < int (length (selection s)) \<Longrightarrow>
   fst (is_index_selected i s) = dict_get (sel_board s) (selection s ! nat i)
   \<and> fst (is_index_banned i s) = dict_get (banned_board s) (selection s ! nat i)"
  by (simp add: is_index_selected_def is_index_banned_def bnd_apply py_index_def)

lemma dict_get_Inr: "dict_get d k = Inr v \<longleftrightarrow> d k = Some v"
  by (simp add: dict_get_def split: option.splits)

lemma toggle_invariant:
  assumes multi: "allow_multiple_selection s" and ok: "state_ok s"
      and unsel: "sel_board s (selection s ! nat (current_index s)) = Some False"
      and opp: "partner s (current_index s) = Inr opp"
      and other: "\<And>q. opp = Some q \<Longrightarrow> 0 \<le> q \<and> q < int (length (selection s))
                    \<and> selection s ! nat q \<noteq> selection s ! nat (current_index s)"
  shows "same_config s (activate_times n s)
       \<and> current_index (activate_times n s) = current_index s
       \<and> state_ok (activate_times n s)
       \<and> sel_board (activate_times n s) (selection s ! nat (current_index s)) = Some (odd n)
       \<and> (0 < n \<or> banned_board s (selection s ! nat (current_index s)) = Some False
            \<longrightarrow> banned_board (activate_times n s) (selection s ! nat (current_index s))
                 = Some False)"
proof (induction n)
  case 0
  from ok unsel show ?case by (simp add: same_config_def)
next
  case (Suc n)
  let ?sn = "activate_times n s"
  let ?lc = "selection s ! nat (current_index s)"
  from Suc have cfg: "same_config s ?sn" and foc: "current_index ?sn = current_index s"
    and okn: "state_ok ?sn" and seln: "sel_board ?sn ?lc = Some (odd n)"
    and bann: "0 < n \<or> banned_board s ?lc = Some False \<longrightarrow> banned_board ?sn ?lc = Some False"
    by simp_all
  from cfg have sel: "selection ?sn = selection s" and m: "allow_multiple_selection ?sn"
    and mg: "mutex_group ?sn = mutex_group s"
    using multi by (simp_all add: same_config_def)
  have p: "partner ?sn (current_index ?sn) = Inr opp"
    using opp foc partner_cong [OF mg] by simp
  have q: "\<And>q. opp = Some q \<Longrightarrow> 0 \<le> q \<and> q < int (length (selection ?sn))"
    using other sel by simp
  have cfg': "same_config s (snd (select_option ?sn))"
    using cfg select_option_config [of ?sn] by (simp add: same_config_def)
  have foc': "current_index (snd (select_option ?sn)) = current_index s"
    using foc by (simp add: select_option_focus)
  have ok': "state_ok (snd (select_option ?sn))"
    using okn by (rule select_option_state_ok)
  show ?case
  proof (cases "odd n")
    case False
    with seln sel foc have "sel_board ?sn (selection ?sn ! nat (current_index ?sn)) = Some False"
      by simp
    from select_option_on [OF m okn this p q]
    have "sel_board (snd (select_option ?sn)) ?lc = Some True
        \<and> banned_board (snd (select_option ?sn)) ?lc = Some False"
      using other sel foc by (cases opp) auto
    with False cfg' foc' ok' show ?thesis by simp
  next
    case True
    then have "0 < n" by (cases n) auto
    with bann have b: "banned_board ?sn ?lc = Some False" by simp
    from True seln sel foc have "sel_board ?sn (selection ?sn ! nat (current_index ?sn)) = Some True"
      by simp
    from select_option_off [OF m okn this p q]
    have "sel_board (snd (select_option ?sn)) ?lc = Some False
        \<and> banned_board (snd (select_option ?sn)) ?lc = Some False"
      using other sel foc b by (cases opp) auto
    with True cfg' foc' ok' show ?thesis by simp
  qed
qed

text \<open>
  Claim C6, amended. In multi-selection mode, take a state of a session (the focus is an
  index of the list and every label has its entries in both boards) in which the focused
  item is unselected and its partner in the mutex group, if it has one, is an index of
  the list whose label differs from the focused label. Then after \<open>n\<close> consecutive
  calls of \<open>select_option\<close> the focused item is selected exactly when \<open>n\<close> is odd,
  its banned flag is false after every call (and before the first one if it was false at
  the start), no call raises, and the focus has not moved.
\<close>

theorem toggle_parity:
  assumes "allow_multiple_selection s" "state_ok s"
      and "fst (is_index_selected (current_index s) s) = Inr False"
      and "get_opposite_mutex_index (current_index s) s = (Inr opp, s)"
      and "\<forall>q. opp = Some q \<longrightarrow> 0 \<le> q \<and> q < int (length (selection s))
                    \<and> selection s ! nat q \<noteq> selection s ! nat (current_index s)"
  shows "fst (is_index_selected (current_index s) (activate_times n s)) = Inr (odd n)
       \<and> (0 < n \<or> fst (is_index_banned (current_index s) s) = Inr False
            \<longrightarrow> fst (is_index_banned (current_index s) (activate_times n s)) = Inr False)
       \<and> fst (select_option (activate_times n s)) = Inr None
       \<and> current_index (activate_times n s) = current_index s"
proof -
  let ?sn = "activate_times n s"
  let ?lc = "selection s ! nat (current_index s)"
  have c: "0 \<le> current_index s" "current_index s < int (length (selection s))"
    using assms(2) by (simp_all add: state_ok_def)
  have unsel: "sel_board s ?lc = Some False"
    using assms(3) read_flag [OF c] by (simp add: dict_get_Inr)
  have opp: "partner s (current_index s) = Inr opp"
    using assms(4) by (simp add: partner_def)
  have other: "\<And>q. opp = Some q \<Longrightarrow> 0 \<le> q \<and> q < int (length (selection s))
                    \<and> selection s ! nat q \<noteq> ?lc"
    using assms(5) by simp
  note inv = toggle_invariant [OF assms(1,2) unsel opp other, of n]
  from inv have cfg: "same_config s ?sn" and foc: "current_index ?sn = current_index s"
    and okn: "state_ok ?sn" and seln: "sel_board ?sn ?lc = Some (odd n)"
    and bann: "0 < n \<or> banned_board s ?lc = Some False \<longrightarrow> banned_board ?sn ?lc = Some False"
    by simp_all
  from cfg have sel: "selection ?sn = selection s" and m: "allow_multiple_selection ?sn"
    and mg: "mutex_group ?sn = mutex_group s"
    using assms(1) by (simp_all add: same_config_def)
  have cn: "0 \<le> current_index s" "current_index s < int (length (selection ?sn))"
    using c sel by simp_all
  have r1: "fst (is_index_selected (current_index s) ?sn) = Inr (odd n)"
    using read_flag [OF cn] seln sel by (simp add: dict_get_Inr)
  have r2: "0 < n \<or> fst (is_index_banned (current_index s) s) = Inr False
            \<longrightarrow> fst (is_index_banned (current_index s) ?sn) = Inr False"
    using read_flag [OF cn] read_flag [OF c] bann sel by (simp add: dict_get_Inr)
  have p: "partner ?sn (current_index ?sn) = Inr opp"
    using opp foc partner_cong [OF mg] by simp
  have q: "\<And>q. opp = Some q \<Longrightarrow> 0 \<le> q \<and> q < int (length (selection ?sn))"
    using other sel by simp
  have r3: "fst (select_option ?sn) = Inr None"
  proof (cases "odd n")
    case False
    with seln sel foc have "sel_board ?sn (selection ?sn ! nat (current_index ?sn)) = Some False"
      by simp
    from select_option_on [OF m okn this p q] show ?thesis by simp
  next
    case True
    with seln sel foc have "sel_board ?sn (selection ?sn ! nat (current_index ?sn)) = Some True"
      by simp
    from select_option_off [OF m okn this p q] show ?thesis by simp
  qed
  from r1 r2 r3 foc show ?thesis by simp
qed

text \<open>
  Claim C6, as stated, fails when the partner carries the label of the focused item: with
  the items X, X and the mutex pair of the indices 0 and 1, one activation at index 0
  selects the label, then bans it, which clears the selection. After one call the item
  is unselected and banned.
\<close>

theorem toggle_parity_counterexample:
  "allow_multiple_selection (Selman_init [''X'', ''X''] 0 True (Some [[0, 1]]) None True)
   \<and> fst (is_index_selected 0
        (activate_times (Suc 0) (Selman_init [''X'', ''X''] 0 True (Some [[0, 1]]) None True)))
       = Inr False
   \<and> fst (is_index_banned 0
        (activate_times (Suc 0) (Selman_init [''X'', ''X''] 0 True (Some [[0, 1]]) None True)))
       = Inr True"
  by (simp add: model_defs)

theorem toggle_parity_witness:
  "fst (is_index_selected 0
        (activate_times 3 (Selman_init [''A'', ''B''] 0 True (Some [[0, 1]]) None True)))
       = Inr True
   \<and> fst (is_index_banned 0
        (activate_times 3 (Selman_init [''A'', ''B''] 0 True (Some [[0, 1]]) None True)))
       = Inr False"
proof -
  let ?s = "Selman_init [''A'', ''B''] 0 True (Some [[0, 1]]) None True"
  have 1: "allow_multiple_selection ?s" by (simp add: Selman_init_def)
  have 2: "state_ok ?s" by (rule Selman_init_state_ok) simp
  have 3: "fst (is_index_selected (current_index ?s) ?s) = Inr False"
    by (simp add: model_defs)
  have 4: "get_opposite_mutex_index (current_index ?s) ?s = (Inr (Some 1), ?s)"
    by (simp add: model_defs)
  have 5: "\<forall>q. Some 1 = Some q \<longrightarrow> 0 \<le> q \<and> q < int (length (selection ?s))
                    \<and> selection ?s ! nat q \<noteq> selection ?s ! nat (current_index ?s)"
    by (simp add: Selman_init_def)
  have c: "current_index ?s = 0" by (simp add: Selman_init_def)
  from toggle_parity [OF 1 2 3 4 5, of 3] show ?thesis by (simp add: c)
qed


subsection \<open>Mutex pairs\<close>

text \<open>In a mutex group of two-member sets where no index is in two sets, the partner of
  an index is the other member of its set, and the partner of the partner is the index
  itself.\<close>

lemma first_opposite_Some:
  "first_opposite i g = Inr (Some j) \<Longrightarrow> \<exists>m \<in> set g. i \<in> set m \<and> j \<in> set m \<and> j \<noteq> i"
proof (induction g)
  case Nil
  then show ?case by simp
next
  case (Cons m g)
  show ?case
  proof (cases "i \<in> set m")
    case False
    with Cons show ?thesis by simp
  next
    case True
    with Cons.prems obtain ks where "filter (\<lambda>x. x \<noteq> i) m = j # ks"
      by (cases "filter (\<lambda>x. x \<noteq> i) m") simp_all
    then have "j \<in> set (filter (\<lambda>x. x \<noteq> i) m)" by simp
    with True show ?thesis by simp
  qed
qed

lemma first_opposite_None:
  "first_opposite i g = Inr None \<Longrightarrow> \<forall>m \<in> set g. i \<notin> set m"
proof (induction g)
  case Nil
  then show ?case by simp
next
  case (Cons m g)
  show ?case
  proof (cases "i \<in> set m")
    case False
    with Cons show ?thesis by simp
  next
    case True
    with Cons.prems show ?thesis
      by (cases "filter (\<lambda>x. x \<noteq> i) m") simp_all
  qed
qed

lemma mutex_ok_tail: "mutex_ok n (m # g) \<Longrightarrow> mutex_ok n g"
  by (simp add: mutex_ok_def)

lemma pair_set:
  assumes "card S = 2" "a \<in> S" "b \<in> S" "a \<noteq> b"
  shows "S = {a, b}"
proof -
  from assms(1) obtain x y where "S = {x, y}" "x \<noteq> y" by (auto simp: card_2_iff)
  with assms(2-4) show ?thesis by auto
qed

lemma first_opposite_pair:
  assumes "mutex_ok n g" "m \<in> set g" "a \<in> set m" "b \<in> set m" "a \<noteq> b"
  shows "first_opposite a g = Inr (Some b)"
  using assms
proof (induction g)
  case Nil
  then show ?case by simp
next
  case (Cons m0 g)
  show ?case
  proof (cases "a \<in> set m0")
    case True
    with Cons.prems(3) have "set m0 \<inter> set m \<noteq> {}" by auto
    with Cons.prems(1,2) have eq: "set m0 = set m" by (auto simp: mutex_ok_def)
    from Cons.prems(1) have "card (set m0) = 2" by (simp add: mutex_ok_def)
    with eq Cons.prems(3-5) have ab: "set m0 = {a, b}" by (intro pair_set) simp_all
    then have "set (filter (\<lambda>x. x \<noteq> a) m0) = {b}" using Cons.prems(5) by auto
    then obtain k ks where k: "filter (\<lambda>x. x \<noteq> a) m0 = k # ks" "k = b"
      by (cases "filter (\<lambda>x. x \<noteq> a) m0") auto
    with True show ?thesis by simp
  next
    case False
    with Cons.prems(2,3) have "m \<in> set g" by auto
    with Cons.IH [OF mutex_ok_tail [OF Cons.prems(1)]] Cons.prems(3-5) False
    show ?thesis by simp
  qed
qed

lemma first_opposite_wf:
  assumes "mutex_ok n g"
  shows "first_opposite i g = Inr None
       \<or> (\<exists>j. first_opposite i g = Inr (Some j) \<and> j \<noteq> i \<and> 0 \<le> j \<and> j < int n
              \<and> first_opposite j g = Inr (Some i))"
proof -
  have "\<forall>m \<in> set g. i \<in> set m \<longrightarrow> (\<exists>j \<in> set m. j \<noteq> i)"
  proof (intro ballI impI)
    fix m assume "m \<in> set g" "i \<in> set m"
    with assms have "2 \<le> card (set m)" by (simp add: mutex_ok_def)
    then show "\<exists>j \<in> set m. j \<noteq> i" by (rule two_members)
  qed
  from first_opposite_total [OF this]
  show ?thesis
  proof (elim disjE conjE exE)
    assume "first_opposite i g = Inr None"
    then show ?thesis by simp
  next
    fix j m
    assume j: "first_opposite i g = Inr (Some j)"
    from first_opposite_Some [OF j] obtain m' where
      m': "m' \<in> set g" "i \<in> set m'" "j \<in> set m'" "j \<noteq> i" by blast
    with assms have "0 \<le> j \<and> j < int n" by (auto simp: mutex_ok_def)
    moreover from m' have "first_opposite j g = Inr (Some i)"
      by (intro first_opposite_pair [OF assms, of m']) auto
    ultimately show ?thesis using j m'(4) by simp
  qed
qed


text \<open>With pairwise distinct labels and such a mutex group, no operation makes both
  members of a pair selected.\<close>

lemma mutex_session_step: "mutex_session g s \<Longrightarrow> mutex_session g (apply_operation op s)"
  using apply_operation_config [of s op] apply_operation_state_ok [of s op]
  by (simp add: mutex_session_def same_config_def)

lemma mutex_session_init:
  "distinct sel \<Longrightarrow> sel \<noteq> [] \<Longrightarrow> mutex_ok (length sel) g
   \<Longrightarrow> mutex_session g (Selman_init sel co True (Some g) fc wipe)"
  using Selman_init_state_ok [of sel co True "Some g" fc wipe]
  by (simp add: mutex_session_def) (simp add: Selman_init_def)

lemma partner_first_opposite: "mutex_group s = Some g \<Longrightarrow> partner s i = first_opposite i g"
  by (simp add: partner_def get_opposite_mutex_index_def)

lemma partner_pair:
  assumes "mutex_session g s" "m \<in> set g" "a \<in> set m" "b \<in> set m" "a \<noteq> b"
  shows "partner s a = Inr (Some b)"
proof -
  from assms(1) have "mutex_group s = Some g" "mutex_ok (length (selection s)) g"
    by (simp_all add: mutex_session_def)
  with first_opposite_pair [OF _ assms(2-5)] show ?thesis
    by (simp add: partner_first_opposite)
qed

lemma partner_wf:
  assumes "mutex_session g s"
  shows "partner s i = Inr None
       \<or> (\<exists>j. partner s i = Inr (Some j) \<and> j \<noteq> i \<and> 0 \<le> j \<and> j < int (length (selection s))
              \<and> partner s j = Inr (Some i))"
proof -
  from assms have "mutex_group s = Some g" "mutex_ok (length (selection s)) g"
    by (simp_all add: mutex_session_def)
  with first_opposite_wf [of "length (selection s)" g i] show ?thesis
    by (simp add: partner_first_opposite)
qed

lemma pair_valid:
  assumes "mutex_session g s" "m \<in> set g" "a \<in> set m"
  shows "0 \<le> a \<and> a < int (length (selection s))"
  using assms by (auto simp: mutex_session_def mutex_ok_def)

lemma label_inj:
  assumes "distinct xs" "0 \<le> i" "i < int (length xs)" "0 \<le> j" "j < int (length xs)"
  shows "(xs ! nat i = xs ! nat j) = (i = j)"
proof -
  from assms have "(xs ! nat i = xs ! nat j) = (nat i = nat j)"
    by (intro nth_eq_iff_index_eq) simp_all
  also from assms(2,4) have "\<dots> = (i = j)" by auto
  finally show ?thesis .
qed

lemma ban_clears:
  "sel_board (snd (ban_selection_by_index t r s)) l = Some True \<Longrightarrow> sel_board s l = Some True"
  by (auto simp: ban_selection_by_index_def act_simps split: sum.splits if_splits)

lemma unban_keeps: "sel_board (snd (unban_selection_by_index t r s)) = sel_board s"
  by (auto simp: unban_selection_by_index_def act_simps split: sum.splits)

lemma change_focus_keeps: "sel_board (snd (change_focus d s)) = sel_board s"
proof -
  obtain r c out where "change_focus d s = (r, s\<lparr>current_index := c, stdout := out\<rparr>)"
    using change_focus_frame [of d s] by auto
  then show ?thesis by simp
qed

lemma proceed_keeps: "sel_board (snd (proceed s)) = sel_board s"
proof -
  obtain r tf out where "proceed s = (r, s\<lparr>terminate_flag := tf, stdout := out\<rparr>)"
    using proceed_frame [of s] by auto
  then show ?thesis by simp
qed


lemma select_option_pair:
  assumes ms: "mutex_session g s" and m: "m \<in> set g" "a \<in> set m" "b \<in> set m" "a \<noteq> b"
      and ex: "\<not> (sel_board s (selection s ! nat a) = Some True
                  \<and> sel_board s (selection s ! nat b) = Some True)"
  shows "\<not> (sel_board (snd (select_option s)) (selection s ! nat a) = Some True
            \<and> sel_board (snd (select_option s)) (selection s ! nat b) = Some True)"
proof -
  let ?c = "current_index s"
  let ?l = "\<lambda>i. selection s ! nat i"
  from ms have multi: "allow_multiple_selection s" and d: "distinct (selection s)"
    and ok: "state_ok s"
    by (simp_all add: mutex_session_def)
  from ok have c: "0 \<le> ?c" "?c < int (length (selection s))"
    by (simp_all add: state_ok_def)
  have va: "0 \<le> a \<and> a < int (length (selection s))"
    and vb: "0 \<le> b \<and> b < int (length (selection s))"
    using pair_valid [OF ms m(1)] m(2,3) by simp_all
  have pa: "partner s a = Inr (Some b)" using partner_pair [OF ms m] .
  have pb: "partner s b = Inr (Some a)"
    using partner_pair [OF ms m(1) m(3) m(2)] m(4) by simp
  from c have "?l ?c \<in> set (selection s)" by simp
  with ok obtain v where v: "sel_board s (?l ?c) = Some v" by (auto simp: state_ok_def)
  from partner_wf [OF ms, of ?c]
  consider "partner s ?c = Inr None"
    | q where "partner s ?c = Inr (Some q)" "q \<noteq> ?c" "0 \<le> q" "q < int (length (selection s))"
        "partner s q = Inr (Some ?c)"
    by blast
  then show ?thesis
  proof cases
    case 1
    then have nc: "?c \<noteq> a" "?c \<noteq> b" using pa pb by auto
    then have nl: "?l ?c \<noteq> ?l a" "?l ?c \<noteq> ?l b"
      using label_inj [OF d c] va vb by simp_all
    show ?thesis
    proof (cases v)
      case True
      with v select_option_off [OF multi ok _ 1] have
        "sel_board (snd (select_option s)) = (sel_board s)(?l ?c \<mapsto> False)" by simp
      with ex nl show ?thesis by simp
    next
      case False
      with v select_option_on [OF multi ok _ 1] have
        "sel_board (snd (select_option s)) = (sel_board s)(?l ?c \<mapsto> True)" by simp
      with ex nl show ?thesis by simp
    qed
  next
    case 2
    have q: "\<And>p. Some q = Some p \<Longrightarrow> 0 \<le> p \<and> p < int (length (selection s))"
      using 2(3,4) by simp
    show ?thesis
    proof (cases v)
      case True
      with v select_option_off [OF multi ok _ 2(1) q] have
        s': "sel_board (snd (select_option s)) = (sel_board s)(?l ?c \<mapsto> False)" by simp
      show ?thesis
      proof
        assume "sel_board (snd (select_option s)) (?l a) = Some True
            \<and> sel_board (snd (select_option s)) (?l b) = Some True"
        with s' have "sel_board s (?l a) = Some True \<and> sel_board s (?l b) = Some True"
          by (auto split: if_splits)
        with ex show False by simp
      qed
    next
      case False
      with v select_option_on [OF multi ok _ 2(1) q] have
        s': "sel_board (snd (select_option s)) = (sel_board s)(?l ?c \<mapsto> True, ?l q \<mapsto> False)"
        by simp
      show ?thesis
      proof (cases "?c = a")
        case True
        with 2(1) pa have "q = b" by simp
        with s' show ?thesis by simp
      next
        case na: False
        show ?thesis
        proof (cases "?c = b")
          case True
          with 2(1) pb have "q = a" by simp
          with s' show ?thesis by simp
        next
          case nb: False
          from na nb have nl: "?l ?c \<noteq> ?l a" "?l ?c \<noteq> ?l b"
            using label_inj [OF d c] va vb by simp_all
          show ?thesis
          proof
            assume "sel_board (snd (select_option s)) (?l a) = Some True
                \<and> sel_board (snd (select_option s)) (?l b) = Some True"
            with s' nl have "sel_board s (?l a) = Some True \<and> sel_board s (?l b) = Some True"
              by (auto split: if_splits)
            with ex show False by simp
          qed
        qed
      qed
    qed
  qed
qed

lemma apply_operation_pair:
  assumes ms: "mutex_session g s" and m: "m \<in> set g" "a \<in> set m" "b \<in> set m" "a \<noteq> b"
      and ex: "\<not> (sel_board s (selection s ! nat a) = Some True
                  \<and> sel_board s (selection s ! nat b) = Some True)"
  shows "\<not> (sel_board (apply_operation op s) (selection s ! nat a) = Some True
            \<and> sel_board (apply_operation op s) (selection s ! nat b) = Some True)"
proof (cases op)
  case (Change_focus d)
  with ex show ?thesis by (simp add: change_focus_keeps)
next
  case Select_option
  with select_option_pair [OF ms m ex] show ?thesis by simp
next
  case Proceed
  with ex show ?thesis by (simp add: proceed_keeps)
next
  case Terminate
  with ex show ?thesis by simp
next
  case (Ban t r)
  with ex show ?thesis using ban_clears [of t r s] by auto
next
  case (Unban t r)
  with ex show ?thesis by (simp add: unban_keeps)
qed

lemma apply_operations_pair:
  assumes m: "m \<in> set g" "a \<in> set m" "b \<in> set m" "a \<noteq> b"
  shows "mutex_session g s \<Longrightarrow>
         \<not> (sel_board s (selection s ! nat a) = Some True
            \<and> sel_board s (selection s ! nat b) = Some True) \<Longrightarrow>
         mutex_session g (apply_operations ops s)
         \<and> selection (apply_operations ops s) = selection s
         \<and> \<not> (sel_board (apply_operations ops s) (selection s ! nat a) = Some True
              \<and> sel_board (apply_operations ops s) (selection s ! nat b) = Some True)"
proof (induction ops arbitrary: s)
  case Nil
  then show ?case by simp
next
  case (Cons op ops)
  let ?s1 = "apply_operation op s"
  have sel: "selection ?s1 = selection s"
    using apply_operation_config [of s op] by (simp add: same_config_def)
  have ms1: "mutex_session g ?s1" using Cons.prems(1) by (rule mutex_session_step)
  have ex1: "\<not> (sel_board ?s1 (selection ?s1 ! nat a) = Some True
                 \<and> sel_board ?s1 (selection ?s1 ! nat b) = Some True)"
    using apply_operation_pair [OF Cons.prems(1) m Cons.prems(2)] sel by simp
  from Cons.IH [OF ms1 ex1] sel show ?case by simp
qed


lemma select_option_session: "mutex_session g s \<Longrightarrow> mutex_session g (snd (select_option s))"
  using mutex_session_step [of g s Select_option] by simp

lemma select_option_selection: "selection (snd (select_option s)) = selection s"
  using select_option_config [of s] by (simp add: same_config_def)

lemma activate_pair:
  assumes ms: "mutex_session g s" and m: "m \<in> set g" "a \<in> set m" "b \<in> set m" "a \<noteq> b"
      and foc: "current_index s = a"
      and unsel: "sel_board s (selection s ! nat a) = Some False"
  shows "fst (select_option s) = Inr None
       \<and> sel_board (snd (select_option s)) (selection s ! nat a) = Some True
       \<and> sel_board (snd (select_option s)) (selection s ! nat b) = Some False
       \<and> banned_board (snd (select_option s)) (selection s ! nat b) = Some True"
proof -
  from ms have multi: "allow_multiple_selection s" and d: "distinct (selection s)"
    and ok: "state_ok s"
    by (simp_all add: mutex_session_def)
  have va: "0 \<le> a \<and> a < int (length (selection s))"
    and vb: "0 \<le> b \<and> b < int (length (selection s))"
    using pair_valid [OF ms m(1)] m(2,3) by simp_all
  have nl: "selection s ! nat a \<noteq> selection s ! nat b"
    using label_inj [OF d, of a b] va vb m(4) by simp
  have pa: "partner s (current_index s) = Inr (Some b)"
    using partner_pair [OF ms m] foc by simp
  have q: "\<And>p. Some b = Some p \<Longrightarrow> 0 \<le> p \<and> p < int (length (selection s))"
    using vb by simp
  from select_option_on [OF multi ok _ pa q] unsel foc nl show ?thesis by simp
qed

lemma deactivate_pair:
  assumes ms: "mutex_session g s" and m: "m \<in> set g" "a \<in> set m" "b \<in> set m" "a \<noteq> b"
      and foc: "current_index s = a"
      and sel: "sel_board s (selection s ! nat a) = Some True"
  shows "fst (select_option s) = Inr None
       \<and> sel_board (snd (select_option s)) (selection s ! nat a) = Some False
       \<and> banned_board (snd (select_option s)) (selection s ! nat b) = Some False"
proof -
  from ms have multi: "allow_multiple_selection s" and ok: "state_ok s"
    by (simp_all add: mutex_session_def)
  have vb: "0 \<le> b \<and> b < int (length (selection s))"
    using pair_valid [OF ms m(1)] m(3) by simp
  then have "selection s ! nat b \<in> set (selection s)" by (intro nth_mem) auto
  with ok obtain v where v: "banned_board s (selection s ! nat b) = Some v"
    by (auto simp: state_ok_def)
  have pa: "partner s (current_index s) = Inr (Some b)"
    using partner_pair [OF ms m] foc by simp
  have q: "\<And>p. Some b = Some p \<Longrightarrow> 0 \<le> p \<and> p < int (length (selection s))"
    using vb by simp
  from select_option_off [OF multi ok _ pa q] sel foc v show ?thesis
    by (cases v) simp_all
qed

text \<open>
  Claim C2, amended. Take a multi-selection session whose labels are pairwise distinct
  and whose mutex group is as the data model has it (sets of two indices of the list, no
  index in two sets), a pair \<open>a\<close>, \<open>b\<close> of that group, and the state \<open>s\<close> after any
  sequence of operations. In \<open>s\<close> the two items are not both selected. If the focus
  is on \<open>a\<close> and \<open>a\<close> is unselected, activating selects \<open>a\<close>, bans \<open>b\<close> and
  leaves \<open>b\<close> unselected, and activating again deselects \<open>a\<close> and unbans \<open>b\<close>;
  neither call raises. Whenever the focus is on \<open>a\<close> and \<open>a\<close> is selected,
  activating leaves \<open>b\<close> unbanned.
\<close>

theorem mutex_pair_exclusive:
  assumes "distinct sel" "mutex_ok (length sel) g"
      and "m \<in> set g" "a \<in> set m" "b \<in> set m" "a \<noteq> b"
      and "s = apply_operations ops (Selman_init sel co True (Some g) fc wipe)"
  shows "\<not> (fst (is_index_selected a s) = Inr True \<and> fst (is_index_selected b s) = Inr True)
       \<and> (current_index s = a \<and> fst (is_index_selected a s) = Inr False \<longrightarrow>
            fst (select_option s) = Inr None
          \<and> fst (is_index_selected a (snd (select_option s))) = Inr True
          \<and> fst (is_index_banned b (snd (select_option s))) = Inr True
          \<and> fst (is_index_selected b (snd (select_option s))) = Inr False
          \<and> fst (select_option (snd (select_option s))) = Inr None
          \<and> fst (is_index_selected a (snd (select_option (snd (select_option s))))) = Inr False
          \<and> fst (is_index_banned b (snd (select_option (snd (select_option s))))) = Inr False)
       \<and> (current_index s = a \<and> fst (is_index_selected a s) = Inr True \<longrightarrow>
            fst (select_option s) = Inr None
          \<and> fst (is_index_banned b (snd (select_option s))) = Inr False)"
proof -
  let ?s0 = "Selman_init sel co True (Some g) fc wipe"
  note m = assms(3-6)
  from assms(2,3,4) have va0: "0 \<le> a \<and> a < int (length sel)" by (auto simp: mutex_ok_def)
  then have ne: "sel \<noteq> []" by auto
  have ms0: "mutex_session g ?s0"
    using assms(1) ne assms(2) by (rule mutex_session_init)
  have sel0: "selection ?s0 = sel" by (simp add: Selman_init_def)
  have ex0: "\<not> (sel_board ?s0 (selection ?s0 ! nat a) = Some True
              \<and> sel_board ?s0 (selection ?s0 ! nat b) = Some True)"
    by (simp add: Selman_init_def map_of_const)
  from apply_operations_pair [OF m ms0 ex0, of ops] assms(7) sel0
  have ms: "mutex_session g s" and sel: "selection s = sel"
    and ex: "\<not> (sel_board s (sel ! nat a) = Some True \<and> sel_board s (sel ! nat b) = Some True)"
    by simp_all
  have va: "0 \<le> a" "a < int (length (selection s))"
    and vb: "0 \<le> b" "b < int (length (selection s))"
    using pair_valid [OF ms m(1)] m(2,3) by simp_all
  have p1: "\<not> (fst (is_index_selected a s) = Inr True \<and> fst (is_index_selected b s) = Inr True)"
    using ex read_flag [OF va] read_flag [OF vb] sel by (simp add: dict_get_Inr)
  have p2: "fst (select_option s) = Inr None
          \<and> fst (is_index_selected a (snd (select_option s))) = Inr True
          \<and> fst (is_index_banned b (snd (select_option s))) = Inr True
          \<and> fst (is_index_selected b (snd (select_option s))) = Inr False
          \<and> fst (select_option (snd (select_option s))) = Inr None
          \<and> fst (is_index_selected a (snd (select_option (snd (select_option s))))) = Inr False
          \<and> fst (is_index_banned b (snd (select_option (snd (select_option s))))) = Inr False"
    if foc: "current_index s = a" and r: "fst (is_index_selected a s) = Inr False"
  proof -
    let ?s1 = "snd (select_option s)"
    let ?s2 = "snd (select_option ?s1)"
    from r have unsel: "sel_board s (selection s ! nat a) = Some False"
      using read_flag [OF va] by (simp add: dict_get_Inr)
    note a1 = activate_pair [OF ms m foc unsel]
    have ms1: "mutex_session g ?s1" using ms by (rule select_option_session)
    have sel1: "selection ?s1 = selection s" by (rule select_option_selection)
    have foc1: "current_index ?s1 = a" using foc by (simp add: select_option_focus)
    have s1a: "sel_board ?s1 (selection ?s1 ! nat a) = Some True" using a1 sel1 by simp
    note a2 = deactivate_pair [OF ms1 m foc1 s1a]
    have sel2: "selection ?s2 = selection s" using sel1 by (simp add: select_option_selection)
    have va1: "0 \<le> a" "a < int (length (selection ?s1))"
      and vb1: "0 \<le> b" "b < int (length (selection ?s1))"
      using va vb sel1 by simp_all
    have va2: "0 \<le> a" "a < int (length (selection ?s2))"
      and vb2: "0 \<le> b" "b < int (length (selection ?s2))"
      using va vb sel2 by simp_all
    from a1 a2 read_flag [OF va1] read_flag [OF vb1] read_flag [OF va2] read_flag [OF vb2]
      sel1 sel2
    show ?thesis by (simp add: dict_get_Inr)
  qed
  have p3: "fst (select_option s) = Inr None
          \<and> fst (is_index_banned b (snd (select_option s))) = Inr False"
    if foc: "current_index s = a" and r: "fst (is_index_selected a s) = Inr True"
  proof -
    let ?s1 = "snd (select_option s)"
    from r have sela: "sel_board s (selection s ! nat a) = Some True"
      using read_flag [OF va] by (simp add: dict_get_Inr)
    note a1 = deactivate_pair [OF ms m foc sela]
    have sel1: "selection ?s1 = selection s" by (rule select_option_selection)
    have vb1: "0 \<le> b" "b < int (length (selection ?s1))"
      using vb sel1 by simp_all
    from a1 read_flag [OF vb1] sel1 show ?thesis by (simp add: dict_get_Inr)
  qed
  from p1 p2 p3 show ?thesis by blast
qed

text \<open>
  Claim C2, as stated, fails when a label occurs twice: with the items X, Y, X and the
  mutex pair of the indices 0 and 1, selecting index 1 and then index 2 leaves the items
  0 and 1 both selected, since index 2 shares the entry of index 0 in the board and has
  no partner.
\<close>

theorem mutex_pair_exclusive_counterexample:
  "allow_multiple_selection (Selman_init [''X'', ''Y'', ''X''] 0 True (Some [[0, 1]]) None True)
   \<and> fst (is_index_selected 0
        (apply_operations [Change_focus 1, Select_option, Change_focus 1, Select_option]
           (Selman_init [''X'', ''Y'', ''X''] 0 True (Some [[0, 1]]) None True))) = Inr True
   \<and> fst (is_index_selected 1
        (apply_operations [Change_focus 1, Select_option, Change_focus 1, Select_option]
           (Selman_init [''X'', ''Y'', ''X''] 0 True (Some [[0, 1]]) None True))) = Inr True"
  by (simp add: model_defs)

theorem mutex_pair_exclusive_witness:
  "fst (is_index_selected 0
        (apply_operations [Select_option, Change_focus 1, Select_option]
           (Selman_init [''A'', ''B''] 0 True (Some [[0, 1]]) None True))) = Inr False
   \<and> fst (is_index_selected 1
        (apply_operations [Select_option, Change_focus 1, Select_option]
           (Selman_init [''A'', ''B''] 0 True (Some [[0, 1]]) None True))) = Inr True
   \<and> \<not> (fst (is_index_selected 0
        (apply_operations [Select_option, Change_focus 1, Select_option]
           (Selman_init [''A'', ''B''] 0 True (Some [[0, 1]]) None True))) = Inr True
      \<and> fst (is_index_selected 1
        (apply_operations [Select_option, Change_focus 1, Select_option]
           (Selman_init [''A'', ''B''] 0 True (Some [[0, 1]]) None True))) = Inr True)"
proof -
  have 1: "distinct [''A'', ''B'']" by simp
  have 2: "mutex_ok (length [''A'', ''B'']) [[0, 1]]" by (simp add: mutex_ok_def)
  have 3: "[0, 1] \<in> set [[0, 1 :: int]]" "(0 :: int) \<in> set [0, 1]" "(1 :: int) \<in> set [0, 1]"
    "(0 :: int) \<noteq> 1" by simp_all
  have e: "fst (is_index_selected 0
        (apply_operations [Select_option, Change_focus 1, Select_option]
           (Selman_init [''A'', ''B''] 0 True (Some [[0, 1]]) None True))) = Inr False
   \<and> fst (is_index_selected 1
        (apply_operations [Select_option, Change_focus 1, Select_option]
           (Selman_init [''A'', ''B''] 0 True (Some [[0, 1]]) None True))) = Inr True"
    by (simp add: model_defs)
  from mutex_pair_exclusive [OF 1 2 3 refl,
      of "[Select_option, Change_focus 1, Select_option]" 0 None True] e
  show ?thesis by simp
qed


subsection \<open>No session returns a label\<close>

text \<open>What the failing input of claim C1 shows holds of every session: in
  multi-selection mode no action returns a label, and in single-selection mode
  \<open>selman_mainstream\<close> returns \<^verbatim>\<open>None\<close> whatever the last action returned. So the
  value returned by a session that ends without an exception is always \<^verbatim>\<open>None\<close>.\<close>

lemma select_option_multi_value:
  "allow_multiple_selection s \<Longrightarrow> fst (select_option s) \<noteq> Inr (Some l)"
  by (auto simp: select_option_def ban_selection_by_index_def unban_selection_by_index_def
        act_simps split: sum.splits option.splits)

lemma fst_thn_ret:
  fixes m :: "'a act" and l :: string
  shows "fst (thn m (ret None) s) \<noteq> Inr (Some l)"
  by (cases "m s") (auto simp: thn_apply split: sum.splits)

lemma manage_key_input_value:
  assumes "fst (fst (manage_key_input k stdin s)) = Inr (Some l)"
  shows "\<not> allow_multiple_selection s"
proof (cases "key_events (if is_ansi_key k then k @ take 2 stdin else k)")
  case None
  with assms show ?thesis by (simp add: manage_key_input_def Let_def)
next
  case (Some action)
  with assms have a: "fst (action s) = Inr (Some l)"
    by (simp add: manage_key_input_def Let_def)
  from Some consider "action = thn (change_focus 1) (ret None)"
    | "action = thn (change_focus (- 1)) (ret None)"
    | "action = select_option"
    | "action = thn proceed (ret None)"
    | "action = thn terminate (ret None)"
    by (auto simp: key_events_def split: if_splits)
  then show ?thesis
  proof cases
    case 3
    with a select_option_multi_value [of s l] show ?thesis by auto
  qed (use a in \<open>simp_all add: fst_thn_ret\<close>)
qed

lemma manage_key_input_mode:
  "allow_multiple_selection (snd (fst (manage_key_input k stdin s))) = allow_multiple_selection s"
proof -
  obtain ops where "snd (fst (manage_key_input k stdin s)) = apply_operations ops s"
    using manage_key_input_operation [of k stdin s] by auto
  with apply_operations_config [of s ops] show ?thesis by (simp add: same_config_def)
qed

lemma read_loop_value:
  assumes "read_loop s stdin = Some y"
  shows "\<forall>l. fst y = Inr (Some l) \<longrightarrow> \<not> allow_multiple_selection (fst (snd y))"
  using assms
proof (rule read_loop.raw_induct [rotated])
  fix rl s stdin y
  assume IH: "\<And>s stdin y. rl s stdin = Some y \<Longrightarrow>
      \<forall>l. fst y = Inr (Some l) \<longrightarrow> \<not> allow_multiple_selection (fst (snd y))"
    and step: "(case manage_key_input (take 1 stdin) (drop 1 stdin) s of
      ((Inl e, s'), rest) \<Rightarrow> Some (Inl e, s', rest)
      | ((Inr last_selection, s'), rest) \<Rightarrow>
          if terminate_flag (s'\<lparr>stdout := stdout s' @ [Flush]\<rparr>)
          then Some (Inr last_selection, s'\<lparr>stdout := stdout s' @ [Flush]\<rparr>, rest)
          else rl (s'\<lparr>stdout := stdout s' @ [Flush]\<rparr>) rest) = Some y"
  obtain r s' rest where m: "manage_key_input (take 1 stdin) (drop 1 stdin) s = ((r, s'), rest)"
    by (cases "manage_key_input (take 1 stdin) (drop 1 stdin) s") auto
  have mode: "allow_multiple_selection s' = allow_multiple_selection s"
    using manage_key_input_mode [of "take 1 stdin" "drop 1 stdin" s] m by simp
  show "\<forall>l. fst y = Inr (Some l) \<longrightarrow> \<not> allow_multiple_selection (fst (snd y))"
  proof (cases r)
    case (Inl e)
    with step m show ?thesis by auto
  next
    case (Inr v)
    show ?thesis
    proof (cases "terminate_flag s'")
      case True
      with step m Inr have y: "y = (Inr v, s'\<lparr>stdout := stdout s' @ [Flush]\<rparr>, rest)" by simp
      show ?thesis
      proof (intro allI impI)
        fix l assume "fst y = Inr (Some l)"
        with y have "v = Some l" by simp
        with m Inr have "fst (fst (manage_key_input (take 1 stdin) (drop 1 stdin) s)) = Inr (Some l)"
          by simp
        then have "\<not> allow_multiple_selection s" by (rule manage_key_input_value)
        with mode y show "\<not> allow_multiple_selection (fst (snd y))" by simp
      qed
    next
      case False
      with step m Inr have "rl (s'\<lparr>stdout := stdout s' @ [Flush]\<rparr>) rest = Some y"
        by simp
      then show ?thesis by (rule IH)
    qed
  qed
qed

lemma selman_mainstream_never_returns_label:
  assumes "selman_mainstream old s stdin = Some (Inr v, s', rest, calls)"
  shows "v = None"
proof -
  let ?pre = "thn (emit (set_cursor_visibility False @ enable_autowrap False))
             (thn (\<lambda>s1. (if allow_multiple_selection s1
                          then emit (set_col_offset (col_offset s1)) else ret ()) s1)
                (thn print_comments (thn initialize_focus (emit [Flush])))) s"
  obtain pr s1 where pre: "?pre = (pr, s1)" by (cases ?pre)
  have fin: "fst (mainstream_finally old r s2) = Inr v \<Longrightarrow>
      (\<forall>l. r = Inr (Some l) \<longrightarrow> \<not> allow_multiple_selection s2) \<Longrightarrow> v = None" for r s2
  proof -
    assume a: "fst (mainstream_finally old r s2) = Inr v"
      and b: "\<forall>l. r = Inr (Some l) \<longrightarrow> \<not> allow_multiple_selection s2"
    obtain out where w: "wipe_comments s2 = (Inr (), s2\<lparr>stdout := out\<rparr>)"
      using wipe_comments_ok [of s2] by auto
    from a b w show "v = None"
      by (cases "wipe_comments_after_select s2"; cases r; cases "allow_multiple_selection s2")
         (auto simp: mainstream_finally_def Let_def)
  qed
  show ?thesis
  proof (cases pr)
    case (Inl e)
    with pre assms have "fst (mainstream_finally old (Inl e) s1) = Inr v"
      by (auto simp: selman_mainstream_def split: prod.splits)
    then show ?thesis by (rule fin) simp
  next
    case (Inr u)
    with pre assms obtain r s2 rest' where rl: "read_loop s1 stdin = Some (r, s2, rest')"
      and f: "fst (mainstream_finally old r s2) = Inr v"
      by (auto simp: selman_mainstream_def split: prod.splits option.splits)
    from read_loop_value [OF rl] have "\<forall>l. r = Inr (Some l) \<longrightarrow> \<not> allow_multiple_selection s2"
      by simp
    with f show ?thesis by (rule fin)
  qed
qed


end
